theory Spec2Isabelle
  imports Complex_Main "HOL-Library.Word" "HOL-Library.Monad_Syntax"
begin

section \<open>Numeric model\<close>

text \<open>
  The program computes with C \<open>double\<close> values. A finite double is kept as the real
  number it denotes. Infinities and NaN are not represented, so the model follows the
  program only where no operation overflows, divides by zero or takes the logarithm of
  a non-positive number; the theorems below state these conditions.

  The arithmetic is modelled twice. The document prior of the trainer is analysed
  with the operations taken exact, an idealisation that the tolerance of its claim
  allows. Everything else is modelled in binary64 arithmetic (further below): every
  operation is rounded as the program rounds it, and the definitions that are
  modelled both ways carry the suffix \<open>_double\<close> there.

  Two conversions of the source are written out in both models: the cast \<open>(int)\<close> of a
  double truncates towards zero, and the cast \<open>(float)\<close> rounds to the nearest binary32
  value.
\<close>

definition double_to_int :: "real \<Rightarrow> int" where
  \<comment> \<open>\<open>(int)d\<close>: the fractional part is discarded (truncation towards zero).\<close>
  "double_to_int d = (if 0 \<le> d then \<lfloor>d\<rfloor> else \<lceil>d\<rceil>)"

definition c_div :: "int \<Rightarrow> int \<Rightarrow> int" where
  \<comment> \<open>integer division of C: the quotient is truncated towards zero\<close>
  "c_div a b = sgn a * sgn b * (\<bar>a\<bar> div \<bar>b\<bar>)"

text \<open>
  The cast \<open>(float)d\<close>. A value whose magnitude exceeds \<open>FLT_MAX\<close> is outside the
  range of \<open>float\<close> and the conversion is undefined (\<open>None\<close>). Otherwise the result is
  the nearest binary32 value, ties to the even significand: the binary exponent \<open>e\<close>
  of the value is searched in \<open>-126 .. 127\<close> (values below \<open>2 powi - 126\<close> are
  subnormal), and the value is rounded to a multiple of \<open>2 powi (e - 23)\<close>. The
  result, a float, is kept as the real number it denotes, which is also its value
  when it is widened to double again.
\<close>

definition FLT_MAX :: real where
  "FLT_MAX = (2 - 1 / 2 ^ 23) * 2 ^ 127"

definition round_half_even :: "real \<Rightarrow> int" where
  "round_half_even r =
     (let f = \<lfloor>r\<rfloor>; d = r - real_of_int f
      in if d < 1 / 2 then f else if 1 / 2 < d then f + 1 else if even f then f else f + 1)"

fun float_exponent :: "real \<Rightarrow> int list \<Rightarrow> int" where
  "float_exponent a [] = 127"
| "float_exponent a (e # es) = (if a < 2 powi (e + 1) then e else float_exponent a es)"

definition float_round :: "real \<Rightarrow> real" where
  "float_round d =
     (let q = 2 powi (float_exponent \<bar>d\<bar> [- 126..127] - 23)
      in real_of_int (round_half_even (d / q)) * q)"

definition double_to_float :: "real \<Rightarrow> real option" where
  "double_to_float d = (if FLT_MAX < \<bar>d\<bar> then None else Some (float_round d))"

text \<open>
  Binary64 arithmetic, IEEE 754 with rounding to nearest, ties to the even significand,
  each operation rounded once (\<open>FLT_EVAL_METHOD\<close> 0, no contraction of a product and a
  sum). \<open>double_round\<close> is the rounding of a real number: the binary exponent \<open>e\<close> of the
  value is searched in \<open>-1022 .. 1023\<close> (values below \<open>2 powi - 1022\<close> are subnormal), and
  the value is rounded to a multiple of \<open>2 powi (e - 52)\<close>. A result beyond \<open>DBL_MAX\<close>,
  which is an infinity in the program, is outside the model. The operations \<open>+\<close>, \<open>-\<close>,
  \<open>*\<close>, \<open>/\<close> and the conversion of an \<open>int\<close> are the exact operations followed by the
  rounding.
\<close>

fun double_exponent :: "real \<Rightarrow> int list \<Rightarrow> int" where
  "double_exponent a [] = 1023"
| "double_exponent a (e # es) = (if a < 2 powi (e + 1) then e else double_exponent a es)"

definition double_exponents :: "int list" where
  "double_exponents = [- 1022..1023]"

definition double_round :: "real \<Rightarrow> real" where
  "double_round d =
     (let q = 2 powi (double_exponent \<bar>d\<bar> double_exponents - 52)
      in real_of_int (round_half_even (d / q)) * q)"

definition dbl_add :: "real \<Rightarrow> real \<Rightarrow> real" where
  "dbl_add a b = double_round (a + b)"

definition dbl_sub :: "real \<Rightarrow> real \<Rightarrow> real" where
  "dbl_sub a b = double_round (a - b)"

definition dbl_mul :: "real \<Rightarrow> real \<Rightarrow> real" where
  "dbl_mul a b = double_round (a * b)"

definition dbl_div :: "real \<Rightarrow> real \<Rightarrow> real" where
  "dbl_div a b = double_round (a / b)"

definition dbl_of_int :: "int \<Rightarrow> real" where
  "dbl_of_int i = double_round (real_of_int i)"

section \<open>Global variables\<close>

text \<open>
  The global variables that the modelled functions read are the fields of one record,
  passed to every function. The fields of the other structs carry a prefix (\<open>sm_\<close>,
  \<open>cl_\<close>, \<open>cen_\<close>, \<open>wi_\<close>, \<open>wh_\<close>), since a field name is a constant of the theory.
\<close>

record globals =
  g_longranularity :: int
  g_latgranularity :: int
  g_unk :: int
  g_nokde :: int
  g_total_wordcount :: int
  g_wordprior :: real
  g_tweetprior :: real
  g_threshold :: int
  g_sigma :: real
  g_wordtypes :: nat
  g_complement_nb :: int

definition default_globals :: globals where
  \<comment> \<open>the initial values of the global variables\<close>
  "default_globals =
     \<lparr>g_longranularity = 360, g_latgranularity = 180, g_unk = 0, g_nokde = 0,
      g_total_wordcount = 0, g_wordprior = 1 / 100, g_tweetprior = 1, g_threshold = 1,
      g_sigma = 3, g_wordtypes = 0, g_complement_nb = 0\<rparr>"

definition set_granularity :: "int \<Rightarrow> globals \<Rightarrow> globals" where
  \<comment> \<open>option \<open>-l\<close>, and the model reader: the latitude granularity is always half\<close>
  "set_granularity l g = g\<lparr>g_longranularity := l, g_latgranularity := c_div l 2\<rparr>"

section \<open>Grid macros\<close>

definition XTOMIDLON :: "globals \<Rightarrow> int \<Rightarrow> real" where
  "XTOMIDLON g X =
     real_of_int X * 360 / real_of_int (g_longranularity g) - 180
       + (360 / real_of_int (g_longranularity g)) / 2"

definition YTOMIDLAT :: "globals \<Rightarrow> int \<Rightarrow> real" where
  "YTOMIDLAT g Y =
     real_of_int Y * 360 / real_of_int (g_longranularity g) - 90
       + (360 / real_of_int (g_longranularity g)) / 2"

definition LONTOX :: "globals \<Rightarrow> real \<Rightarrow> int" where
  "LONTOX g LON = double_to_int (real_of_int (g_longranularity g) / 360 * (LON + 180))"

definition LATTOY :: "globals \<Rightarrow> real \<Rightarrow> int" where
  "LATTOY g LAT = double_to_int (real_of_int (g_longranularity g) / 360 * (LAT + 90))"



definition LATLONTOCELL :: "globals \<Rightarrow> real \<Rightarrow> real \<Rightarrow> int" where
  "LATLONTOCELL g LAT LON = LATTOY g LAT * g_longranularity g + LONTOX g LON"

text \<open>
  The same macros in binary64 arithmetic, operation by operation:
  \<open>((double)(X)) * 360.0/(double)g_longranularity - 180.0 + (360.0/(double)g_longranularity)/2.0\<close>
  and \<open>(int)((double)g_longranularity/360.0 * ((LON) + 180.0))\<close>.
\<close>

definition XTOMIDLON_double :: "globals \<Rightarrow> int \<Rightarrow> real" where
  "XTOMIDLON_double g X =
     dbl_add
       (dbl_sub (dbl_div (dbl_mul (dbl_of_int X) 360) (dbl_of_int (g_longranularity g))) 180)
       (dbl_div (dbl_div 360 (dbl_of_int (g_longranularity g))) 2)"

definition YTOMIDLAT_double :: "globals \<Rightarrow> int \<Rightarrow> real" where
  "YTOMIDLAT_double g Y =
     dbl_add
       (dbl_sub (dbl_div (dbl_mul (dbl_of_int Y) 360) (dbl_of_int (g_longranularity g))) 90)
       (dbl_div (dbl_div 360 (dbl_of_int (g_longranularity g))) 2)"

definition LONTOX_double :: "globals \<Rightarrow> real \<Rightarrow> int" where
  "LONTOX_double g LON =
     double_to_int (dbl_mul (dbl_div (dbl_of_int (g_longranularity g)) 360) (dbl_add LON 180))"

definition LATTOY_double :: "globals \<Rightarrow> real \<Rightarrow> int" where
  "LATTOY_double g LAT =
     double_to_int (dbl_mul (dbl_div (dbl_of_int (g_longranularity g)) 360) (dbl_add LAT 90))"


definition grid14 :: globals where
  \<comment> \<open>option \<open>-l 14\<close>\<close>
  "grid14 = set_granularity 14 default_globals"

section \<open>Sparse matrices\<close>

text \<open>
  \<open>struct sparsematrix\<close>: two \<open>short int\<close> fields and a \<open>float\<close>. A sparse matrix is
  the array of its triples, the terminating one included. The dense matrix is an array
  of \<open>g_latgranularity * g_longranularity\<close> doubles. A read or write outside an array
  is undefined in C; the model returns \<open>None\<close> there.
\<close>

record sparsematrix =
  sm_x :: "16 word"
  sm_y :: "16 word"
  sm_value :: real

definition short_of_int :: "int \<Rightarrow> 16 word" where
  \<comment> \<open>\<open>(short int)i\<close>: the low 16 bits of \<open>i\<close>; \<open>sint\<close> reads the field back\<close>
  "short_of_int i = word_of_int i"

text \<open>
  \<open>sparsematrix_to_matrix\<close>: the loop \<open>for (i = 0; sm[i].x != -1; i++)\<close> over the
  triples, writing into the zeroed matrix of \<open>calloc\<close>. An array without a triple whose
  \<open>x\<close> is \<open>-1\<close> is read past its end.
\<close>

fun sparsematrix_scatter :: "globals \<Rightarrow> sparsematrix list \<Rightarrow> real list \<Rightarrow> real list option" where
  "sparsematrix_scatter g [] matrix = None"
| "sparsematrix_scatter g (t # ts) matrix =
     (if sint (sm_x t) = - 1 then Some matrix
      else
        let idx = sint (sm_x t) + sint (sm_y t) * g_longranularity g
        in if 0 \<le> idx \<and> idx < int (length matrix)
           then sparsematrix_scatter g ts (matrix[nat idx := sm_value t])
           else None)"

definition sparsematrix_to_matrix :: "globals \<Rightarrow> sparsematrix list \<Rightarrow> real list option" where
  "sparsematrix_to_matrix g sm =
     sparsematrix_scatter g sm (replicate (nat (g_latgranularity g * g_longranularity g)) 0)"

definition sm_sentinel :: sparsematrix where
  \<comment> \<open>\<open>sm[i].x = -1; sm[i].y = -1; sm[i].value = -1.0;\<close> at the end of \<open>matrix_to_sparsematrix\<close>\<close>
  "sm_sentinel = \<lparr>sm_x = short_of_int (- 1), sm_y = short_of_int (- 1), sm_value = - 1\<rparr>"

text \<open>
  \<open>matrix_to_sparsematrix\<close>: \<open>x\<close> is the outer loop and \<open>y\<close> the inner one; a triple is
  written for every cell whose value is not \<open>0.0\<close>. (The first loop of the source only
  counts these cells, to size the array.)
\<close>

fun sm_emit :: "globals \<Rightarrow> real list \<Rightarrow> (int \<times> int) list \<Rightarrow> sparsematrix list option" where
  "sm_emit g matrix [] = Some [sm_sentinel]"
| "sm_emit g matrix ((x, y) # cs) =
     (if matrix ! nat (x + y * g_longranularity g) \<noteq> 0
      then do {
        v \<leftarrow> double_to_float (matrix ! nat (x + y * g_longranularity g));
        sm \<leftarrow> sm_emit g matrix cs;
        Some (\<lparr>sm_x = short_of_int x, sm_y = short_of_int y, sm_value = v\<rparr> # sm)
      }
      else sm_emit g matrix cs)"

definition column_major :: "globals \<Rightarrow> (int \<times> int) list" where
  "column_major g =
     concat (map (\<lambda>x. map (\<lambda>y. (x, y)) [0..g_latgranularity g - 1]) [0..g_longranularity g - 1])"

definition matrix_to_sparsematrix :: "globals \<Rightarrow> real list \<Rightarrow> sparsematrix list option" where
  "matrix_to_sparsematrix g matrix = sm_emit g matrix (column_major g)"

text \<open>
  \<open>sparsematrix_create\<close>, \<open>sparsematrix_add\<close> and \<open>sparsematrix_close\<close>: the handle is
  the list of the triples added so far (the source doubles the buffer when it is full).
  \<open>geoloc_read_model\<close> adds the triples of a \<open>#MATRIX#\<close> section and then
  \<open>sparsematrix_add(smh, -1, -1, 0.0)\<close>.
\<close>

definition sparsematrix_add ::
  "sparsematrix list \<Rightarrow> int \<Rightarrow> int \<Rightarrow> real \<Rightarrow> sparsematrix list option" where
  "sparsematrix_add smh x y v = do {
     f \<leftarrow> double_to_float v;
     Some (smh @ [\<lparr>sm_x = short_of_int x, sm_y = short_of_int y, sm_value = f\<rparr>])
   }"

fun sparsematrix_add_all ::
  "sparsematrix list \<Rightarrow> (int \<times> int \<times> real) list \<Rightarrow> sparsematrix list option" where
  "sparsematrix_add_all smh [] = Some smh"
| "sparsematrix_add_all smh ((x, y, v) # ls) = do {
     smh' \<leftarrow> sparsematrix_add smh x y v;
     sparsematrix_add_all smh' ls
   }"

definition read_matrix_section :: "(int \<times> int \<times> real) list \<Rightarrow> sparsematrix list option" where
  "read_matrix_section ls = do {
     smh \<leftarrow> sparsematrix_add_all [] ls;
     sparsematrix_add smh (- 1) (- 1) 0
   }"

definition sm_reader_sentinel :: sparsematrix where
  \<comment> \<open>the triple that \<open>sparsematrix_add(smh, -1, -1, 0.0)\<close> stores\<close>
  "sm_reader_sentinel = \<lparr>sm_x = short_of_int (- 1), sm_y = short_of_int (- 1), sm_value = 0\<rparr>"

definition grid2 :: globals where
  \<comment> \<open>the smallest grid: two cells, \<open>--longranularity=2\<close>\<close>
  "grid2 = set_granularity 2 default_globals"


section \<open>Centroids\<close>

text \<open>
  \<open>struct coordinate_list\<close>: a linked list of points, each a pair of \<open>float\<close>s; the
  list is modelled as a HOL list from the head. \<open>struct centroids\<close>: a pair of doubles.
\<close>

record coordinate =
  cl_lat :: real
  cl_lon :: real






definition valid_point :: "coordinate \<Rightarrow> bool" where
  "valid_point p \<longleftrightarrow> - 90 \<le> cl_lat p \<and> cl_lat p < 90 \<and> - 180 \<le> cl_lon p \<and> cl_lon p < 180"



section \<open>Kernel density estimation and the document prior\<close>

text \<open>
  \<open>#define TWOPI 6.283185307179586477\<close> and \<open>bivariate_gaussian_pdf\<close>, as written.
\<close>

definition TWOPI :: real where
  "TWOPI = 6283185307179586477 / 10 ^ 18"

definition bivariate_gaussian_pdf ::
  "real \<Rightarrow> real \<Rightarrow> real \<Rightarrow> real \<Rightarrow> real \<Rightarrow> real \<Rightarrow> real \<Rightarrow> real" where
  "bivariate_gaussian_pdf x1 x2 sigma1 sigma2 rho mu1 mu2 =
     (let z = (x1 - mu1) * (x1 - mu1) / (sigma1 * sigma1)
              - 2 * rho * (x1 - mu1) * (x2 - mu2) / (sigma1 * sigma2)
              + (x2 - mu2) * (x2 - mu2) / (sigma2 * sigma2)
      in 1 / (TWOPI * sigma1 * sigma2 * sqrt (1 - rho * rho))
           * exp (- (z / (2 * (1 - rho * rho)))))"

text \<open>
  \<open>matrix_kde_from_coords\<close>. Its first loop,
  \<open>for (x = 0; ; x++) { thisdensity = ...; if (thisdensity < 0.001) break; }\<close>,
  has no bound: it is a partial function, \<open>None\<close> when the density never falls
  below the cutoff. \<open>kde_density_at_tick\<close> is the density the loop evaluates at tick
  \<open>x\<close>: the Gaussian along the first axis, \<open>x\<close> ticks of \<open>360 / L\<close> degrees from its
  centre.
\<close>

definition kde_density_at_tick :: "globals \<Rightarrow> real \<Rightarrow> real \<Rightarrow> real \<Rightarrow> int \<Rightarrow> real" where
  "kde_density_at_tick g sigma1 sigma2 rho x =
     bivariate_gaussian_pdf (real_of_int x * (360 / real_of_int (g_longranularity g))) 0
       sigma1 sigma2 rho 0 0"

partial_function (option) kde_radius_from ::
  "globals \<Rightarrow> real \<Rightarrow> real \<Rightarrow> real \<Rightarrow> int \<Rightarrow> int option" where
  "kde_radius_from g sigma1 sigma2 rho x =
     (if kde_density_at_tick g sigma1 sigma2 rho x < 1 / 1000 then Some x
      else kde_radius_from g sigma1 sigma2 rho (x + 1))"

definition kde_maxradius :: "globals \<Rightarrow> real \<Rightarrow> real \<Rightarrow> real \<Rightarrow> int option" where
  "kde_maxradius g sigma1 sigma2 rho = kde_radius_from g sigma1 sigma2 rho 0"

text \<open>
  The second loop visits every point; \<open>kde_point\<close> is its body, the window of
  \<open>maxradius\<close> ticks around the cell of the point, clipped to the grid, and
  \<open>kde_cell\<close> the innermost statement. The clipping keeps every index inside a matrix
  of \<open>g_latgranularity * g_longranularity\<close> cells.
\<close>

definition kde_cell ::
  "globals \<Rightarrow> real \<Rightarrow> real \<Rightarrow> real \<Rightarrow> coordinate \<Rightarrow> int \<Rightarrow> int \<Rightarrow> real list \<Rightarrow> real list" where
  "kde_cell g sigma1 sigma2 rho p y x matrix =
     matrix[nat (x + y * g_longranularity g) :=
       matrix ! nat (x + y * g_longranularity g)
         + bivariate_gaussian_pdf (XTOMIDLON g x) (YTOMIDLAT g y) sigma1 sigma2 rho
             (cl_lon p) (cl_lat p)]"

definition kde_point ::
  "globals \<Rightarrow> int \<Rightarrow> real \<Rightarrow> real \<Rightarrow> real \<Rightarrow> coordinate \<Rightarrow> real list \<Rightarrow> real list" where
  "kde_point g maxradius sigma1 sigma2 rho p matrix =
     (let minx = (if LONTOX g (cl_lon p) - maxradius < 0 then 0
                  else LONTOX g (cl_lon p) - maxradius);
          maxx = (if LONTOX g (cl_lon p) + maxradius \<ge> g_longranularity g
                  then g_longranularity g else LONTOX g (cl_lon p) + maxradius);
          miny = (if LATTOY g (cl_lat p) - maxradius < 0 then 0
                  else LATTOY g (cl_lat p) - maxradius);
          maxy = (if LATTOY g (cl_lat p) + maxradius \<ge> g_latgranularity g
                  then g_latgranularity g else LATTOY g (cl_lat p) + maxradius)
      in fold (\<lambda>y. fold (kde_cell g sigma1 sigma2 rho p y) [minx..maxx - 1])
           [miny..maxy - 1] matrix)"

definition matrix_kde_from_coords ::
  "globals \<Rightarrow> real list \<Rightarrow> coordinate list \<Rightarrow> real \<Rightarrow> real \<Rightarrow> real \<Rightarrow> real list option" where
  "matrix_kde_from_coords g matrix cl sigma1 sigma2 rho = do {
     maxradius \<leftarrow> kde_maxradius g sigma1 sigma2 rho;
     Some (fold (kde_point g maxradius sigma1 sigma2 rho) cl matrix)
   }"

text \<open>\<open>matrix_nokde_from_coords\<close>: one unit of mass per point, with no clipping.\<close>

fun matrix_nokde_from_coords :: "globals \<Rightarrow> real list \<Rightarrow> coordinate list \<Rightarrow> real list option" where
  "matrix_nokde_from_coords g matrix [] = Some matrix"
| "matrix_nokde_from_coords g matrix (p # cl) =
     (let x = LONTOX g (cl_lon p); y = LATTOY g (cl_lat p); idx = x + y * g_longranularity g
      in if 0 \<le> idx \<and> idx < int (length matrix)
         then matrix_nokde_from_coords g (matrix[nat idx := matrix ! nat idx + 1]) cl
         else None)"

text \<open>
  \<open>matrix_init\<close>, \<open>matrix_normalize\<close> (the sum is accumulated from \<open>0.0\<close>, cell by
  cell), and the part of \<open>geoloc_train_model\<close> that builds the document prior
  \<open>tweetsmatrix\<close>.
\<close>

definition matrix_init :: "globals \<Rightarrow> real \<Rightarrow> real list" where
  "matrix_init g prior = replicate (nat (g_latgranularity g * g_longranularity g)) prior"

definition matrix_normalize :: "real list \<Rightarrow> real list" where
  "matrix_normalize matrix = (let sum = foldl (+) 0 matrix in map (\<lambda>v. v / sum) matrix)"

definition train_tweetsmatrix :: "globals \<Rightarrow> coordinate list \<Rightarrow> real list option" where
  "train_tweetsmatrix g tweetcoords = do {
     m \<leftarrow> (if g_nokde g \<noteq> 0
           then matrix_nokde_from_coords g (matrix_init g (g_tweetprior g)) tweetcoords
           else matrix_kde_from_coords g (matrix_init g (g_tweetprior g)) tweetcoords
                  (g_sigma g) (g_sigma g) 0);
     Some (matrix_normalize m)
   }"

text \<open>A matrix that is, cell by cell, at least another one of the same size.\<close>

definition pointwise_ge :: "real list \<Rightarrow> real list \<Rightarrow> bool" where
  "pointwise_ge m m' \<longleftrightarrow> length m' = length m \<and> (\<forall>i<length m. m ! i \<le> m' ! i)"

definition grid2_nokde :: globals where
  \<comment> \<open>the two-cell grid with \<open>--nokde\<close>\<close>
  "grid2_nokde = grid2\<lparr>g_nokde := 1\<rparr>"

section \<open>Feature store\<close>

text \<open>
  \<open>struct wordhash\<close> and \<open>struct wordhash_table\<close> (wordhash.h): an open-addressing
  table with linear probing. The array \<open>table\<close> is a list of slots; a slot whose
  value is \<open>-1\<close> is free, and the word of a free slot is never read. The
  \<open>unsigned int\<close> fields \<open>tablesize\<close> and \<open>occupancy\<close> are natural numbers (no table
  comes near \<open>2^32\<close> slots); the hash value is a 32-bit word, so that \<open>wordhash_hashf\<close>
  wraps as in C. \<open>c = *word++\<close> widens a \<open>char\<close>, signed as on x86; for ASCII text
  the signedness makes no difference.
\<close>

record wordhash_table =
  wt_word :: string
  wt_value :: int

record wordhash =
  wh_table :: "wordhash_table list"
  wh_tablesize :: nat
  wh_occupancy :: nat

definition free_slot :: wordhash_table where
  "free_slot = \<lparr>wt_word = [], wt_value = - 1\<rparr>"

definition char_to_uint :: "char \<Rightarrow> 32 word" where
  "char_to_uint c = word_of_int (sint (of_char c :: 8 word))"

definition wordhash_hashf :: "string \<Rightarrow> 32 word" where
  \<comment> \<open>djb2: \<open>hash = ((hash << 5) + hash) + c\<close>, from 5381\<close>
  "wordhash_hashf word = fold (\<lambda>c hash. (push_bit 5 hash + hash) + char_to_uint c) word 5381"

definition next_slot :: "nat \<Rightarrow> nat \<Rightarrow> nat" where
  \<comment> \<open>\<open>hash++; if (hash >= tablesize) hash -= tablesize;\<close>\<close>
  "next_slot tablesize hash = (if hash + 1 \<ge> tablesize then hash + 1 - tablesize else hash + 1)"

definition first_slot :: "wordhash \<Rightarrow> string \<Rightarrow> nat" where
  "first_slot wh word = unat (wordhash_hashf word) mod wh_tablesize wh"

text \<open>
  \<open>wordhash_find\<close>: the loop runs at most \<open>tablesize\<close> times; the last argument of
  \<open>wordhash_find_loop\<close> is the number of iterations left.
\<close>

fun wordhash_find_loop :: "wordhash_table list \<Rightarrow> nat \<Rightarrow> string \<Rightarrow> nat \<Rightarrow> nat \<Rightarrow> int" where
  "wordhash_find_loop table tablesize word hash 0 = - 1"
| "wordhash_find_loop table tablesize word hash (Suc j) =
     (if wt_value (table ! hash) = - 1 then - 1
      else if wt_word (table ! hash) = word then wt_value (table ! hash)
      else wordhash_find_loop table tablesize word (next_slot tablesize hash) j)"

definition wordhash_find :: "wordhash \<Rightarrow> string \<Rightarrow> int" where
  "wordhash_find wh word =
     wordhash_find_loop (wh_table wh) (wh_tablesize wh) word (first_slot wh word)
       (wh_tablesize wh)"

text \<open>
  The \<open>for (;;)\<close> loops of \<open>wordhash_insert_with_value\<close> and \<open>wordhash_insert\<close> walk
  the table until they meet a free slot, and do not end when there is none:
  \<open>wordhash_probe_free\<close> is that walk, \<open>None\<close> when it does not end.
\<close>

partial_function (option) wordhash_probe_free ::
  "wordhash_table list \<Rightarrow> nat \<Rightarrow> nat \<Rightarrow> nat option" where
  "wordhash_probe_free table tablesize hash =
     (if wt_value (table ! hash) = - 1 then Some hash
      else wordhash_probe_free table tablesize (next_slot tablesize hash))"

definition wordhash_insert_with_value :: "wordhash \<Rightarrow> string \<Rightarrow> int \<Rightarrow> wordhash option" where
  "wordhash_insert_with_value wh word v = do {
     hash \<leftarrow> wordhash_probe_free (wh_table wh) (wh_tablesize wh) (first_slot wh word);
     Some (wh\<lparr>wh_table := (wh_table wh)[hash := \<lparr>wt_word = word, wt_value = v\<rparr>]\<rparr>)
   }"

text \<open>
  \<open>wordhash_rehash\<close>: a table twice as large, all slots free, into which the occupied
  slots of the old table are inserted in the order of their position.
\<close>

fun rehash_entries :: "wordhash \<Rightarrow> wordhash_table list \<Rightarrow> wordhash option" where
  "rehash_entries wh [] = Some wh"
| "rehash_entries wh (e # es) =
     (if wt_value e \<noteq> - 1 then do {
        wh' \<leftarrow> wordhash_insert_with_value wh (wt_word e) (wt_value e);
        rehash_entries wh' es
      }
      else rehash_entries wh es)"

definition wordhash_rehash :: "wordhash \<Rightarrow> wordhash option" where
  "wordhash_rehash wh =
     rehash_entries
       (wh\<lparr>wh_table := replicate (wh_tablesize wh * 2) free_slot,
           wh_tablesize := wh_tablesize wh * 2\<rparr>)
       (take (wh_tablesize wh) (wh_table wh))"

text \<open>
  \<open>occupy\<close> is the body that \<open>wordhash_insert\<close> and \<open>wordhash_set_value\<close> run at a free
  slot: store the word and the value, count the slot, and rehash when more than half
  of the table is occupied.
\<close>

definition occupy :: "wordhash \<Rightarrow> nat \<Rightarrow> string \<Rightarrow> int \<Rightarrow> wordhash option" where
  "occupy wh hash word v =
     (let wh' = wh\<lparr>wh_table := (wh_table wh)[hash := \<lparr>wt_word = word, wt_value = v\<rparr>],
                   wh_occupancy := wh_occupancy wh + 1\<rparr>
      in if wh_occupancy wh' > wh_tablesize wh' div 2 then wordhash_rehash wh' else Some wh')"

definition wordhash_insert :: "wordhash \<Rightarrow> string \<Rightarrow> (wordhash \<times> int) option" where
  "wordhash_insert wh word = do {
     hash \<leftarrow> wordhash_probe_free (wh_table wh) (wh_tablesize wh) (first_slot wh word);
     wh' \<leftarrow> occupy wh hash word (int (wh_occupancy wh));
     Some (wh', int (wh_occupancy wh') - 1)
   }"




definition wordhash_init :: "nat \<Rightarrow> wordhash" where
  "wordhash_init tablesize =
     \<lparr>wh_table = replicate tablesize free_slot, wh_tablesize = tablesize, wh_occupancy = 0\<rparr>"

text \<open>
  The number of occupied slots, and the state in which the table is between two
  calls: the array has \<open>tablesize\<close> slots, at least two, \<open>occupancy\<close> counts the occupied
  ones, and at most half of the table is occupied.
\<close>

definition occupied :: "wordhash_table list \<Rightarrow> nat" where
  "occupied t = length (filter (\<lambda>e. wt_value e \<noteq> - 1) t)"

definition wordhash_wf :: "wordhash \<Rightarrow> bool" where
  "wordhash_wf wh \<longleftrightarrow>
     length (wh_table wh) = wh_tablesize wh \<and> 2 \<le> wh_tablesize wh
     \<and> occupied (wh_table wh) \<le> wh_occupancy wh \<and> 2 * wh_occupancy wh \<le> wh_tablesize wh"

text \<open>
  \<open>struct wordinfo\<close> and the array \<open>wc_list\<close> of \<open>wc_list_size\<close> entries (the length
  of the list), zeroed by \<open>calloc\<close> and by the \<open>memset\<close> after each \<open>realloc\<close>. A null
  pointer is \<open>None\<close>; the empty coordinate list is the null list.
\<close>

record wordinfo =
  wi_coordinate_list :: "coordinate list"
  wi_sparsematrix :: "sparsematrix list option"
  wi_word :: "string option"
  wi_weight :: real
  wi_count :: int

definition zero_wordinfo :: wordinfo where
  "zero_wordinfo = \<lparr>wi_coordinate_list = [], wi_sparsematrix = None, wi_word = None,
                     wi_weight = 0, wi_count = 0\<rparr>"

record store =
  global_wh_train :: wordhash
  wc_list :: "wordinfo list"
  wc_list_max :: nat

definition initial_store :: store where
  \<comment> \<open>\<open>main\<close>: \<open>wc_list_size = 1024\<close>, \<open>calloc\<close>; \<open>training_read\<close>: \<open>wordhash_init(128)\<close>\<close>
  "initial_store = \<lparr>global_wh_train = wordhash_init 128, wc_list = replicate 1024 zero_wordinfo,
                     wc_list_max = 0\<rparr>"

text \<open>
  \<open>word_coord_add_word\<close>. \<open>add_observation\<close> is the part after the \<open>if\<close>: the count is
  incremented and, unless both coordinates are zero, the point is put in front of the
  coordinate list, narrowed to \<open>float\<close>.
\<close>

definition add_observation :: "store \<Rightarrow> nat \<Rightarrow> real \<Rightarrow> real \<Rightarrow> store option" where
  "add_observation st wordindex lat lon =
     (if wordindex < length (wc_list st) then
        let wi = (wc_list st ! wordindex)\<lparr>wi_count := wi_count (wc_list st ! wordindex) + 1\<rparr>
        in if lat \<noteq> 0 \<or> lon \<noteq> 0 then do {
             flat \<leftarrow> double_to_float lat;
             flon \<leftarrow> double_to_float lon;
             Some (st\<lparr>wc_list := (wc_list st)[wordindex :=
                      wi\<lparr>wi_coordinate_list :=
                            \<lparr>cl_lat = flat, cl_lon = flon\<rparr> # wi_coordinate_list wi\<rparr>]\<rparr>)
           }
           else Some (st\<lparr>wc_list := (wc_list st)[wordindex := wi]\<rparr>)
      else None)"

definition word_coord_add_word :: "store \<Rightarrow> string \<Rightarrow> real \<Rightarrow> real \<Rightarrow> int \<Rightarrow> store option" where
  "word_coord_add_word st word lat lon storeword =
     (if wordhash_find (global_wh_train st) word = - 1 then do {
        (wh, wordindex) \<leftarrow> wordhash_insert (global_wh_train st) word;
        let wmax = (if nat wordindex > wc_list_max st then nat wordindex else wc_list_max st);
            wcl = (if nat wordindex \<ge> length (wc_list st)
                   then wc_list st @ replicate (length (wc_list st)) zero_wordinfo
                   else wc_list st)
        in if nat wordindex < length wcl then
             add_observation
               (st\<lparr>global_wh_train := wh, wc_list_max := wmax,
                   wc_list := wcl[nat wordindex :=
                     (wcl ! nat wordindex)\<lparr>wi_sparsematrix := None, wi_count := - 1,
                        wi_word := (if storeword \<noteq> 0 then Some word
                                    else wi_word (wcl ! nat wordindex))\<rparr>]\<rparr>)
               (nat wordindex) lat lon
           else None
      }
      else add_observation st (nat (wordhash_find (global_wh_train st) word)) lat lon)"

definition word_coord_get_count :: "store \<Rightarrow> string \<Rightarrow> int option" where
  "word_coord_get_count st word =
     (let wordindex = wordhash_find (global_wh_train st) word
      in if wordindex = - 1 then None else Some (wi_count (wc_list st ! nat wordindex)))"

definition word_coord_get_weight :: "store \<Rightarrow> string \<Rightarrow> real option" where
  "word_coord_get_weight st word =
     (let wordindex = wordhash_find (global_wh_train st) word
      in if wordindex = - 1 then None else Some (wi_weight (wc_list st ! nat wordindex)))"

definition word_coord_set_weight :: "store \<Rightarrow> string \<Rightarrow> real \<Rightarrow> store option" where
  "word_coord_set_weight st word weight =
     (let wordindex = wordhash_find (global_wh_train st) word
      in if wordindex = - 1 then None
         else Some (st\<lparr>wc_list := (wc_list st)[nat wordindex :=
                       (wc_list st ! nat wordindex)\<lparr>wi_weight := weight\<rparr>]\<rparr>))"

text \<open>
  The loop over the features in \<open>geoloc_train_model\<close> (and in \<open>geoloc_write_model\<close>):
  \<open>j\<close> counts the nodes of the coordinate list, and \<open>if (j < g_threshold) continue;\<close>
  skips the feature. \<open>train_retained\<close> lists the indices for which the body runs.
\<close>

definition train_retained :: "globals \<Rightarrow> store \<Rightarrow> nat list" where
  "train_retained g st =
     filter (\<lambda>i. \<not> int (length (wi_coordinate_list (wc_list st ! i))) < g_threshold g)
       [0..<wc_list_max st + 1]"

section \<open>Classifiers\<close>

text \<open>
  \<open>DBL_MAX\<close> of \<open>float.h\<close>. The loops \<open>for (c = 0; c < g_longranularity *
  g_latgranularity; c++)\<close> run over \<open>cell_range\<close>; a loop that updates every cell from
  its own old value is written as a \<open>map\<close> over the cells. The matrices passed in have
  one entry per cell.
\<close>

definition DBL_MAX :: real where
  "DBL_MAX = (2 - 1 / 2 ^ 52) * 2 ^ 1023"

definition cell_range :: "globals \<Rightarrow> nat list" where
  "cell_range g = [0..<nat (g_longranularity g * g_latgranularity g)]"

definition matrix_copy :: "globals \<Rightarrow> real list \<Rightarrow> real list" where
  "matrix_copy g matrix1 = map (\<lambda>i. matrix1 ! i) (cell_range g)"

text \<open>
  \<open>word_get_matrix\<close>: the stored sparse matrix decoded, or, when none is stored, the
  density generated on the fly from the coordinate list.
\<close>

definition word_get_matrix :: "globals \<Rightarrow> store \<Rightarrow> nat \<Rightarrow> real list option" where
  "word_get_matrix g st wordindex =
     (case wi_sparsematrix (wc_list st ! wordindex) of
        None \<Rightarrow>
          if g_nokde g \<noteq> 0
          then matrix_nokde_from_coords g (matrix_init g 0)
                 (wi_coordinate_list (wc_list st ! wordindex))
          else matrix_kde_from_coords g (matrix_init g 0)
                 (wi_coordinate_list (wc_list st ! wordindex)) (g_sigma g) (g_sigma g) 0
      | Some sm \<Rightarrow> sparsematrix_to_matrix g sm)"

text \<open>
  The shortcut of both classifiers: \<open>c_min\<close> is the least prior of a cell (the loop
  starts from \<open>100000\<close> in Naive Bayes and from \<open>DBL_MAX\<close> in the KL scorer), and a
  cell whose prior equals it is skipped unless the caller asked for the whole
  distribution (\<open>resultmatrix != NULL\<close>, the flag \<open>want\<close>).
\<close>

definition prior_minimum :: "globals \<Rightarrow> real list \<Rightarrow> real \<Rightarrow> real" where
  "prior_minimum g tweetsmatrix start =
     fold (\<lambda>c c_min. if tweetsmatrix ! c < c_min then tweetsmatrix ! c else c_min)
       (cell_range g) start"

definition cell_skipped :: "real list \<Rightarrow> bool \<Rightarrow> real \<Rightarrow> nat \<Rightarrow> bool" where
  "cell_skipped tweetsmatrix want c_min c \<longleftrightarrow> tweetsmatrix ! c = c_min \<and> \<not> want"

text \<open>
  \<open>tweet_classify_naivebayes\<close>. The state of the loop over the words is the total
  matrix and the locals \<open>feature_weight\<close>, \<open>wordcount\<close> and \<open>i\<close>. C gives the first two no
  initial value, and they are assigned only in the branch of a known word: the values
  they hold before that are indeterminate, and are parameters of the model
  (\<open>uninit_weight\<close>, \<open>uninit_count\<close>). \<open>nb_word\<close> is the body of the loop up to the test
  \<open>if (feature_weight == 0) continue;\<close>, and \<open>nb_score\<close> is that test and the loop over the
  cells after it; \<open>nb_cell\<close> is the new value of one cell.
\<close>

record nb_state =
  nb_totalmatrix :: "real list"
  nb_feature_weight :: real
  nb_wordcount :: int
  nb_i :: int

definition nb_cell ::
  "globals \<Rightarrow> real list \<Rightarrow> real list \<Rightarrow> int \<Rightarrow> real list \<Rightarrow> nat \<Rightarrow> real" where
  "nb_cell g wordmatrix tempwordmatrix wordcount totalmatrix c =
     (if g_complement_nb g = 0 then
        let p = tempwordmatrix ! c + g_wordprior g;
            c_iw = ln (wordmatrix ! c
                       + g_wordprior g * (real (g_wordtypes g) + 1 + real_of_int (g_unk g)))
        in totalmatrix ! c + (ln p - c_iw)
      else
        let p = real_of_int wordcount - tempwordmatrix ! c + g_wordprior g;
            c_iw = ln (real_of_int (g_total_wordcount g) - wordmatrix ! c
                       + g_wordprior g * (real (g_wordtypes g) + 1 + real_of_int (g_unk g)))
        in totalmatrix ! c - (ln p - c_iw))"

definition nb_score ::
  "globals \<Rightarrow> real list \<Rightarrow> real list \<Rightarrow> bool \<Rightarrow> real \<Rightarrow> real list \<Rightarrow> nb_state \<Rightarrow> nb_state" where
  "nb_score g tweetsmatrix wordmatrix want c_min tempwordmatrix s =
     (if nb_feature_weight s = 0 then s
      else s\<lparr>nb_totalmatrix :=
             map (\<lambda>c. if cell_skipped tweetsmatrix want c_min c then nb_totalmatrix s ! c
                       else nb_cell g wordmatrix tempwordmatrix (nb_wordcount s)
                              (nb_totalmatrix s) c)
               (cell_range g)\<rparr>)"

definition nb_word ::
  "globals \<Rightarrow> store \<Rightarrow> real list \<Rightarrow> real list \<Rightarrow> bool \<Rightarrow> real \<Rightarrow> nb_state \<Rightarrow> string
     \<Rightarrow> nb_state option" where
  "nb_word g st tweetsmatrix wordmatrix want c_min s w =
     (let wordindex = wordhash_find (global_wh_train st) w
      in if wordindex \<noteq> - 1 then do {
           tempwordmatrix \<leftarrow> word_get_matrix g st (nat wordindex);
           feature_weight \<leftarrow> word_coord_get_weight st w;
           wordcount \<leftarrow> word_coord_get_count st w;
           Some (nb_score g tweetsmatrix wordmatrix want c_min tempwordmatrix
                   (s\<lparr>nb_feature_weight := feature_weight, nb_wordcount := wordcount,
                      nb_i := nb_i s + 1\<rparr>))
         }
         else if g_unk g \<noteq> 0 then
           Some (nb_score g tweetsmatrix wordmatrix want c_min (matrix_init g 0)
                   (s\<lparr>nb_i := nb_i s + 1\<rparr>))
         else Some s)"

fun nb_words ::
  "globals \<Rightarrow> store \<Rightarrow> real list \<Rightarrow> real list \<Rightarrow> bool \<Rightarrow> real \<Rightarrow> nb_state \<Rightarrow> string list
     \<Rightarrow> nb_state option" where
  "nb_words g st tweetsmatrix wordmatrix want c_min s [] = Some s"
| "nb_words g st tweetsmatrix wordmatrix want c_min s (w # ws) = do {
     s' \<leftarrow> nb_word g st tweetsmatrix wordmatrix want c_min s w;
     nb_words g st tweetsmatrix wordmatrix want c_min s' ws
   }"

text \<open>The final loop: the first cell with the greatest total among the cells not skipped.\<close>

definition nb_argmax :: "globals \<Rightarrow> real list \<Rightarrow> bool \<Rightarrow> real \<Rightarrow> real list \<Rightarrow> real \<times> nat" where
  "nb_argmax g tweetsmatrix want c_min totalmatrix =
     fold (\<lambda>c (p_max, maxindex).
             if cell_skipped tweetsmatrix want c_min c then (p_max, maxindex)
             else if totalmatrix ! c > p_max then (totalmatrix ! c, c)
             else (p_max, maxindex))
       (cell_range g) (- DBL_MAX, 0)"

text \<open>
  The function returns \<open>maxindex\<close>; the total matrix is copied to \<open>resultmatrix\<close> when
  the caller passed one.
\<close>

definition tweet_classify_naivebayes ::
  "globals \<Rightarrow> store \<Rightarrow> real \<Rightarrow> int \<Rightarrow> string list \<Rightarrow> real list \<Rightarrow> real list \<Rightarrow> bool
     \<Rightarrow> (nat \<times> real list option) option" where
  "tweet_classify_naivebayes g st uninit_weight uninit_count words tweetsmatrix wordmatrix want =
     (let c_min = prior_minimum g tweetsmatrix 100000;
          totalmatrix = map ln (matrix_copy g tweetsmatrix)
      in do {
        s \<leftarrow> nb_words g st tweetsmatrix wordmatrix want c_min
               \<lparr>nb_totalmatrix = totalmatrix, nb_feature_weight = uninit_weight,
                nb_wordcount = uninit_count, nb_i = 0\<rparr> words;
        Some (snd (nb_argmax g tweetsmatrix want c_min (nb_totalmatrix s)),
              if want then Some (nb_totalmatrix s) else None)
      })"







text \<open>
  A small loaded model on the two-cell grid: nine word types, of which the reader
  kept one, \<open>alpha\<close>, with weight 1 and a stored density of 8 in cell 0. The hash
  of \<open>alpha\<close> is 253193259, which is slot 43 of a table of 128.
\<close>

definition alpha_store :: store where
  "alpha_store =
     \<lparr>global_wh_train =
        \<lparr>wh_table = (replicate 128 free_slot)[43 := \<lparr>wt_word = ''alpha'', wt_value = 0\<rparr>],
         wh_tablesize = 128, wh_occupancy = 1\<rparr>,
      wc_list = [\<lparr>wi_coordinate_list = [],
                  wi_sparsematrix = Some [\<lparr>sm_x = 0, sm_y = 0, sm_value = 8\<rparr>, sm_reader_sentinel],
                  wi_word = Some ''alpha'', wi_weight = 1, wi_count = 0\<rparr>],
      wc_list_max = 0\<rparr>"

definition alpha_globals :: globals where
  "alpha_globals = grid2\<lparr>g_wordtypes := 9\<rparr>"


definition unk_globals :: globals where
  \<comment> \<open>the same model with \<open>--unk\<close>\<close>
  "unk_globals = alpha_globals\<lparr>g_unk := 1\<rparr>"

section \<open>The Naive Bayes score of the specification\<close>




section \<open>Properties of the double rounding\<close>

lemma double_exponent_step:
  "lo \<le> 1023 \<Longrightarrow> double_exponent a [lo..1023]
     = (if a < 2 powi (lo + 1) then lo else double_exponent a [lo + 1..1023])"
  by (subst upto_rec1) simp_all

lemma double_exponent_bounds:
  "lo \<le> 1023 \<Longrightarrow> lo \<le> double_exponent a [lo..1023] \<and> double_exponent a [lo..1023] \<le> 1023"
proof (induction "nat (1023 - lo)" arbitrary: lo)
  case 0
  then have "lo = 1023" by simp
  then show ?case by (simp add: upto_rec1)
next
  case (Suc n)
  then have "lo + 1 \<le> double_exponent a [lo + 1..1023] \<and> double_exponent a [lo + 1..1023] \<le> 1023"
    by (intro Suc.hyps(1)) auto
  then show ?case using Suc.prems double_exponent_step [of lo a] by auto
qed

lemma double_exponent_above:
  "lo \<le> 1023 \<Longrightarrow> a < 2 powi 1024 \<Longrightarrow> a < 2 powi (double_exponent a [lo..1023] + 1)"
proof (induction "nat (1023 - lo)" arbitrary: lo)
  case 0
  then have "lo = 1023" by simp
  then show ?case using 0 by (simp add: upto_rec1)
next
  case (Suc n)
  then have "a < 2 powi (double_exponent a [lo + 1..1023] + 1)"
    by (intro Suc.hyps(1)) auto
  then show ?case using Suc.prems double_exponent_step [of lo a] by auto
qed

lemma double_exponent_below:
  "lo \<le> 1023 \<Longrightarrow> 2 powi lo \<le> a \<Longrightarrow> 2 powi (double_exponent a [lo..1023]) \<le> a"
proof (induction "nat (1023 - lo)" arbitrary: lo)
  case 0
  then have "lo = 1023" by simp
  then show ?case using 0 by (simp add: upto_rec1)
next
  case (Suc n)
  show ?case
  proof (cases "a < 2 powi (lo + 1)")
    case True
    then show ?thesis using Suc.prems double_exponent_step [of lo a] by simp
  next
    case False
    then have "2 powi (double_exponent a [lo + 1..1023]) \<le> a"
      using Suc by (intro Suc.hyps(1)) auto
    then show ?thesis using False Suc.prems double_exponent_step [of lo a] by simp
  qed
qed

lemma double_exponent_cases:
  "double_exponent a double_exponents = - 1022
     \<or> 2 powi (double_exponent a double_exponents) \<le> a"
proof (cases "a < 2 powi (- 1021)")
  case True
  have "double_exponent a [- 1022..1023] = - 1022"
    by (subst double_exponent_step) (use True in simp_all)
  then show ?thesis by (simp only: double_exponents_def) simp
next
  case False
  have b: "2 powi (double_exponent a [- 1021..1023]) \<le> a"
    by (rule double_exponent_below) (use False in simp_all)
  have "double_exponent a [- 1022..1023] = double_exponent a [- 1022 + 1..1023]"
    by (subst double_exponent_step) (use False in simp_all)
  also have "- 1022 + 1 = (- 1021 :: int)" by simp
  finally have "double_exponent a [- 1022..1023] = double_exponent a [- 1021..1023]" .
  then show ?thesis using b by (simp only: double_exponents_def) simp
qed

lemma double_exponent_range:
  "- 1022 \<le> double_exponent a double_exponents" "double_exponent a double_exponents \<le> 1023"
proof -
  have "- 1022 \<le> double_exponent a [- 1022..1023] \<and> double_exponent a [- 1022..1023] \<le> 1023"
    by (rule double_exponent_bounds) simp
  then show "- 1022 \<le> double_exponent a double_exponents"
    "double_exponent a double_exponents \<le> 1023"
    by (simp_all only: double_exponents_def)
qed

lemma double_exponent_less:
  "a < 2 powi 1024 \<Longrightarrow> a < 2 powi (double_exponent a double_exponents + 1)"
  unfolding double_exponents_def by (rule double_exponent_above) simp_all

lemma double_exponent_upto:
  assumes e: "- 1022 \<le> e" "e \<le> 1023" and a: "2 powi e \<le> a" "a < 2 powi (e + 1)"
  shows "double_exponent a double_exponents = e"
proof -
  let ?d = "double_exponent a double_exponents"
  have "(2::real) powi (e + 1) \<le> 2 powi 1024" using e by (intro power_int_increasing) auto
  then have "a < 2 powi 1024" using a by linarith
  then have up: "a < 2 powi (?d + 1)" by (rule double_exponent_less)
  have "\<not> ?d < e"
  proof
    assume "?d < e"
    then have "(2::real) powi (?d + 1) \<le> 2 powi e" by (intro power_int_increasing) auto
    then show False using up a by linarith
  qed
  moreover have "\<not> e < ?d"
  proof
    assume lt: "e < ?d"
    then have "?d \<noteq> - 1022" using e by linarith
    then have "2 powi ?d \<le> a" using double_exponent_cases [of a] by blast
    moreover have "(2::real) powi (e + 1) \<le> 2 powi ?d" using lt by (intro power_int_increasing) auto
    ultimately show False using a by linarith
  qed
  ultimately show ?thesis by linarith
qed

lemma round_half_even_error: "\<bar>real_of_int (round_half_even r) - r\<bar> \<le> 1 / 2"
proof -
  define f where "f = \<lfloor>r\<rfloor>"
  have f: "real_of_int f \<le> r" "r < real_of_int f + 1" by (simp_all add: f_def)
  consider "r - real_of_int f < 1 / 2" | "1 / 2 < r - real_of_int f" | "r - real_of_int f = 1 / 2"
    by linarith
  then show ?thesis
  proof cases
    case 1
    then have "round_half_even r = f" by (simp add: round_half_even_def Let_def f_def)
    then show ?thesis using f 1 by simp
  next
    case 2
    then have "round_half_even r = f + 1" by (simp add: round_half_even_def Let_def f_def)
    then show ?thesis using f 2 by simp
  next
    case 3
    then have "round_half_even r = f \<or> round_half_even r = f + 1"
      by (simp add: round_half_even_def Let_def f_def)
    then show ?thesis using f 3 by auto
  qed
qed

lemma round_half_even_int: "round_half_even (real_of_int k) = k"
  by (simp add: round_half_even_def Let_def)

lemma round_half_even_nonneg: "0 \<le> r \<Longrightarrow> 0 \<le> round_half_even r"
  unfolding round_half_even_def Let_def by (auto intro: add_nonneg_nonneg)

lemma powi_shift_53: "1 / 2 * 2 powi (e - 52) = 2 powi e / (2 ^ 53 :: real)"
proof -
  have "(2::real) powi (e - 52) = 2 powi e / 2 powi 52"
    by (rule power_int_diff) simp
  also have "(2::real) powi 52 = 2 ^ 52" by (rule power_int_numeral)
  finally show ?thesis by simp
qed

lemma powi_min_normal: "(2::real) powi (- 1022) = 1 / 2 ^ 1022"
  by (simp only: power_int_minus power_int_numeral inverse_eq_divide)

lemma double_round_error_exponent:
  "\<bar>double_round d - d\<bar> \<le> 2 powi (double_exponent \<bar>d\<bar> double_exponents) / 2 ^ 53"
proof -
  define e where "e = double_exponent \<bar>d\<bar> double_exponents"
  define q :: real where "q = 2 powi (e - 52)"
  have qpos: "0 < q" by (simp add: q_def)
  have dr: "double_round d = real_of_int (round_half_even (d / q)) * q"
    by (simp only: double_round_def Let_def e_def q_def)
  have "d = d / q * q" using qpos by simp
  then have "double_round d - d = (real_of_int (round_half_even (d / q)) - d / q) * q"
    by (simp only: dr left_diff_distrib)
  then have "\<bar>double_round d - d\<bar> = \<bar>real_of_int (round_half_even (d / q)) - d / q\<bar> * q"
    using qpos by (simp only: abs_mult abs_of_pos)
  also have "\<dots> \<le> 1 / 2 * q"
    by (rule mult_right_mono [OF round_half_even_error less_imp_le [OF qpos]])
  also have "\<dots> = 2 powi e / 2 ^ 53"
    unfolding q_def by (rule powi_shift_53)
  finally show ?thesis unfolding e_def .
qed

lemma double_round_error:
  assumes "\<bar>d\<bar> \<le> B" "1 / 2 ^ 1022 \<le> B"
  shows "\<bar>double_round d - d\<bar> \<le> B / 2 ^ 53"
proof -
  define e where "e = double_exponent \<bar>d\<bar> double_exponents"
  have "2 powi e \<le> B"
  proof (cases "e = - 1022")
    case True
    then show ?thesis using assms(2) by (simp only: powi_min_normal)
  next
    case False
    then have "2 powi e \<le> \<bar>d\<bar>" using double_exponent_cases [of "\<bar>d\<bar>"] unfolding e_def by blast
    then show ?thesis using assms(1) by linarith
  qed
  then have "2 powi e / 2 ^ 53 \<le> B / 2 ^ 53" by (rule divide_right_mono) simp
  then show ?thesis using double_round_error_exponent [of d] unfolding e_def by linarith
qed

lemma double_round_0: "double_round 0 = 0"
  by (simp add: double_round_def round_half_even_def Let_def)

lemma double_round_nonneg: "0 \<le> d \<Longrightarrow> 0 \<le> double_round d"
  unfolding double_round_def Let_def
  by (intro mult_nonneg_nonneg) (auto intro!: round_half_even_nonneg divide_nonneg_pos)

lemma double_round_eval:
  assumes "- 1022 \<le> e" "e \<le> 1023" "2 powi e \<le> \<bar>d\<bar>" "\<bar>d\<bar> < 2 powi (e + 1)"
  shows "double_round d = real_of_int (round_half_even (d / 2 powi (e - 52))) * 2 powi (e - 52)"
  using double_exponent_upto [OF assms] by (simp add: double_round_def Let_def)

lemma double_round_exact:
  assumes d: "d = real_of_int m * 2 powi j" and m: "\<bar>m\<bar> < 2 ^ 53" and j: "- 1074 \<le> j"
  shows "double_round d = d"
proof -
  define e where "e = double_exponent \<bar>d\<bar> double_exponents"
  define q :: real where "q = 2 powi (e - 52)"
  have dr: "double_round d = real_of_int (round_half_even (d / q)) * q"
    by (simp only: double_round_def Let_def e_def q_def)
  have le: "e - 52 \<le> j"
  proof (cases "e = - 1022")
    case True
    then show ?thesis using j by simp
  next
    case False
    then have lo: "2 powi e \<le> \<bar>d\<bar>"
      using double_exponent_cases [of "\<bar>d\<bar>"] unfolding e_def by blast
    have "\<bar>d\<bar> = real_of_int \<bar>m\<bar> * 2 powi j" by (simp add: d abs_mult)
    also have "\<dots> < 2 ^ 53 * 2 powi j"
    proof (rule mult_strict_right_mono)
      have "real_of_int \<bar>m\<bar> < real_of_int (2 ^ 53)" using m by (simp only: of_int_less_iff)
      then show "real_of_int \<bar>m\<bar> < 2 ^ 53" by simp
    qed simp
    also have "\<dots> = 2 powi (j + 53)" by (simp add: power_int_add)
    finally have "(2::real) powi e < 2 powi (j + 53)" using lo by linarith
    have "\<not> j + 53 \<le> e"
    proof
      assume "j + 53 \<le> e"
      then have "(2::real) powi (j + 53) \<le> 2 powi e" by (intro power_int_increasing) auto
      then show False using \<open>(2::real) powi e < 2 powi (j + 53)\<close> by linarith
    qed
    then show ?thesis by simp
  qed
  define n where "n = nat (j - (e - 52))"
  have "2 powi j = 2 powi (int n + (e - 52))" using le by (simp add: n_def)
  also have "\<dots> = (2::real) ^ n * q" by (simp add: power_int_add q_def)
  finally have dq: "d = real_of_int (m * 2 ^ n) * q" by (simp add: d)
  have "0 < q" by (simp add: q_def)
  then have "d / q = real_of_int (m * 2 ^ n)" by (simp add: dq)
  then have "round_half_even (d / q) = m * 2 ^ n" by (simp only: round_half_even_int)
  then show ?thesis by (simp only: dr) (simp add: dq)
qed

lemma double_round_of_int:
  assumes "\<bar>k\<bar> < 2 ^ 53"
  shows "double_round (real_of_int k) = real_of_int k"
  by (rule double_round_exact [where m = k and j = 0]) (use assms in simp_all)

lemma double_round_numeral [simp]:
  "double_round 180 = 180" "double_round 360 = 360" "double_round 90 = 90" "double_round 2 = 2"
  "double_round (- 180) = - 180"
  using double_round_of_int [of 180] double_round_of_int [of 360] double_round_of_int [of 90]
    double_round_of_int [of 2] double_round_of_int [of "- 180"]
  by simp_all

lemma dbl_of_int_exact: "\<bar>k\<bar> < 2 ^ 53 \<Longrightarrow> dbl_of_int k = real_of_int k"
  unfolding dbl_of_int_def by (rule double_round_of_int)

lemma round_360_14: "double_round (360 / 14) = 7237927972559726 / 2 ^ 48"
  by (subst double_round_eval [where e = 4])
     (simp_all add: round_half_even_def Let_def power_int_minus)

lemma round_360_14_half: "double_round (7237927972559726 / 2 ^ 48 / 2) = 7237927972559726 / 2 ^ 49"
  by (subst double_round_eval [where e = 3])
     (simp_all add: round_half_even_def Let_def power_int_minus)

lemma round_midpoint_14: "double_round (- 180 + 7237927972559726 / 2 ^ 49) = - (5880816477704777 / 2 ^ 45)"
  by (subst double_round_eval [where e = 7])
     (simp_all add: round_half_even_def Let_def power_int_minus)

section \<open>Properties of the grid\<close>

lemma double_to_int_nonneg: "0 \<le> d \<Longrightarrow> double_to_int d = \<lfloor>d\<rfloor>"
  by (simp add: double_to_int_def)

lemma dbl_err:
  assumes "\<bar>d\<bar> \<le> B" "1 \<le> B"
  shows "\<bar>double_round d - d\<bar> \<le> B / 2 ^ 53"
proof (rule double_round_error [OF assms(1)])
  have "(1::real) / 2 ^ 1022 \<le> 1" by simp
  then show "1 / 2 ^ 1022 \<le> B" using assms(2) by linarith
qed

lemma tick_product_error:
  fixes l c off :: real
  assumes l: "1 \<le> l" and c: "0 \<le> c + off" "c + off < 360"
  defines "p \<equiv> double_round (double_round (l / 360) * double_round (c + off))"
  shows "0 \<le> p" and "\<bar>p - l / 360 * (c + off)\<bar> \<le> 5 * l / 2 ^ 53"
proof -
  define u :: real where "u = 1 / 2 ^ 53"
  define w where "w = l * u"
  define q where "q = double_round (l / 360)"
  define s where "s = double_round (c + off)"
  have u: "0 < u" "u \<le> 1 / 1000000" by (simp_all add: u_def)
  have w: "0 \<le> w" using l u by (simp add: w_def)
  have wl: "w \<le> l / 1000000"
  proof -
    have "l * u \<le> l * (1 / 1000000)" using l u by (intro mult_left_mono) auto
    then show ?thesis by (simp add: w_def)
  qed
  have q0: "0 \<le> q" unfolding q_def using l by (intro double_round_nonneg) simp
  have "\<bar>double_round (l / 360) - l / 360\<bar> \<le> (l / 256) / 2 ^ 53"
    using l by (intro double_round_error) (auto simp: abs_if intro: order_trans [of _ "1 / 256"])
  then have qe: "\<bar>q - l / 360\<bar> \<le> w / 256" by (simp add: q_def w_def u_def)
  have s0: "0 \<le> s" unfolding s_def using c by (intro double_round_nonneg)
  have "\<bar>double_round (c + off) - (c + off)\<bar> \<le> 512 / 2 ^ 53"
    using c by (intro dbl_err) auto
  then have se: "\<bar>s - (c + off)\<bar> \<le> 512 * u" by (simp add: s_def u_def)
  have s1: "s \<le> 361" using se c u by linarith
  have q1: "q \<le> l / 256" using qe wl l by linarith
  have qs: "q * s \<le> l / 256 * 361" using q0 s0 q1 s1 by (intro mult_mono) auto
  have qs0: "0 \<le> q * s" using q0 s0 by simp
  have "\<bar>double_round (q * s) - q * s\<bar> \<le> (2 * l) / 2 ^ 53"
    using qs qs0 l by (intro dbl_err) (auto simp: abs_if)
  then have pe: "\<bar>p - q * s\<bar> \<le> 2 * w" by (simp add: p_def q_def s_def w_def u_def)
  have d: "q * s - l / 360 * (c + off) = (q - l / 360) * s + l / 360 * (s - (c + off))"
    by (simp add: field_simps)
  have t1: "\<bar>(q - l / 360) * s\<bar> \<le> w / 256 * 361"
    unfolding abs_mult using qe s0 s1 w by (intro mult_mono) auto
  have t2: "\<bar>l / 360 * (s - (c + off))\<bar> \<le> l / 360 * (512 * u)"
    unfolding abs_mult using se l by (intro mult_mono) auto
  have "l / 360 * (512 * u) = 512 / 360 * w" by (simp add: w_def)
  then have t2': "\<bar>l / 360 * (s - (c + off))\<bar> \<le> 512 / 360 * w" using t2 by simp
  have "\<bar>q * s - l / 360 * (c + off)\<bar> \<le> w / 256 * 361 + 512 / 360 * w"
    unfolding d using t1 t2' by (rule order_trans [OF abs_triangle_ineq add_mono])
  then have "\<bar>q * s - l / 360 * (c + off)\<bar> \<le> 3 * w" using w by simp
  then have "\<bar>p - l / 360 * (c + off)\<bar> \<le> 5 * w" using pe by linarith
  then show "\<bar>p - l / 360 * (c + off)\<bar> \<le> 5 * l / 2 ^ 53" by (simp add: w_def u_def)
  show "0 \<le> p" unfolding p_def using qs0 by (intro double_round_nonneg) (simp add: q_def s_def)
qed


lemma mid_rounding_error:
  fixes l off :: real and x :: int
  assumes l: "1 \<le> l" and x: "0 \<le> x" "real_of_int x \<le> l + 1" "x < 2 ^ 32"
    and off: "0 \<le> off" "off \<le> 180"
  defines "mid \<equiv> double_round (double_round (double_round (double_round (real_of_int x * 360) / l) - off)
                      + double_round (double_round (360 / l) / 2))"
  shows "\<bar>mid - (real_of_int x * 360 / l - off + 180 / l)\<bar> \<le> 4864 / 2 ^ 53"
proof -
  define u :: real where "u = 1 / 2 ^ 53"
  have u: "0 < u" "u \<le> 1 / 1000000" by (simp_all add: u_def)
  define a2 where "a2 = double_round (real_of_int x * 360 / l)"
  define a3 where "a3 = double_round (a2 - off)"
  define b1 where "b1 = double_round (360 / l)"
  define b2 where "b2 = double_round (b1 / 2)"
  have "\<bar>x * 360\<bar> < 2 ^ 53" using x by simp
  from double_round_of_int [OF this]
  have a1: "double_round (real_of_int x * 360) = real_of_int x * 360" by simp
  have lpos: "0 < l" using l by simp
  have r0: "0 \<le> real_of_int x * 360 / l" using x lpos by simp
  have "real_of_int x * 360 \<le> (l + 1) * 360" using x by simp
  also have "\<dots> \<le> 720 * l" using l by simp
  finally have r1: "real_of_int x * 360 / l \<le> 720" using lpos by (simp add: field_simps)
  have "\<bar>double_round (real_of_int x * 360 / l) - real_of_int x * 360 / l\<bar> \<le> 1024 / 2 ^ 53"
    using r0 r1 by (intro dbl_err) auto
  then have e2: "\<bar>a2 - real_of_int x * 360 / l\<bar> \<le> 1024 * u" by (simp add: a2_def u_def)
  have a2b: "\<bar>a2 - off\<bar> \<le> 1024" using e2 r0 r1 off u by linarith
  have "\<bar>double_round (a2 - off) - (a2 - off)\<bar> \<le> 1024 / 2 ^ 53"
    using a2b by (intro dbl_err) auto
  then have e3: "\<bar>a3 - (a2 - off)\<bar> \<le> 1024 * u" by (simp add: a3_def u_def)
  have c0: "0 \<le> 360 / l" "360 / l \<le> 360" using l lpos by (simp_all add: field_simps)
  have "\<bar>double_round (360 / l) - 360 / l\<bar> \<le> 512 / 2 ^ 53"
    using c0 by (intro dbl_err) auto
  then have f1: "\<bar>b1 - 360 / l\<bar> \<le> 512 * u" by (simp add: b1_def u_def)
  have b1b: "\<bar>b1 / 2\<bar> \<le> 512" using f1 c0 u by linarith
  have "\<bar>double_round (b1 / 2) - b1 / 2\<bar> \<le> 512 / 2 ^ 53"
    using b1b by (intro dbl_err) auto
  then have f2: "\<bar>b2 - b1 / 2\<bar> \<le> 512 * u" by (simp add: b2_def u_def)
  have sb: "\<bar>a3 + b2\<bar> \<le> 2048" using e3 a2b f2 b1b u by linarith
  have "\<bar>double_round (a3 + b2) - (a3 + b2)\<bar> \<le> 2048 / 2 ^ 53"
    using sb by (intro dbl_err) auto
  moreover have "mid = double_round (a3 + b2)"
    by (simp add: mid_def a1 a2_def a3_def b1_def b2_def)
  ultimately have g: "\<bar>mid - (a3 + b2)\<bar> \<le> 2048 * u" by (simp add: u_def)
  have "180 / l = (360 / l) / 2" by simp
  then have "\<bar>mid - (real_of_int x * 360 / l - off + 180 / l)\<bar> \<le> 4864 * u"
    using g e3 e2 f2 f1 by linarith
  then show ?thesis by (simp add: u_def)
qed

lemma tick_mid_double:
  fixes L :: int and c off :: real
  assumes L: "0 < L" "L < 2 ^ 31"
    and off: "0 \<le> off" "off \<le> 180"
    and c: "0 \<le> c + off" "c + off < 360"
    and X: "X = double_to_int (dbl_mul (dbl_div (dbl_of_int L) 360) (dbl_add c off))"
  shows "\<bar>dbl_add (dbl_sub (dbl_div (dbl_mul (dbl_of_int X) 360) (dbl_of_int L)) off)
            (dbl_div (dbl_div 360 (dbl_of_int L)) 2) - c\<bar>
           \<le> 180 / real_of_int L + 1 / 2 ^ 40"
proof -
  let ?mid = "\<lambda>x. dbl_add (dbl_sub (dbl_div (dbl_mul (dbl_of_int x) 360) (dbl_of_int L)) off)
            (dbl_div (dbl_div 360 (dbl_of_int L)) 2)"
  define l where "l = real_of_int L"
  define u :: real where "u = 1 / 2 ^ 53"
  define t where "t = l / 360 * (c + off)"
  define p where "p = double_round (double_round (l / 360) * double_round (c + off))"
  define x where "x = \<lfloor>p\<rfloor>"
  have l: "1 \<le> l" "l < 2 ^ 31" using L by (simp_all add: l_def)
  have lpos: "0 < l" using l by simp
  have Lx: "dbl_of_int L = l" unfolding l_def using L by (intro dbl_of_int_exact) simp
  from tick_product_error [OF l(1) c]
  have p0: "0 \<le> p" and pe: "\<bar>p - t\<bar> \<le> 5 * l / 2 ^ 53" by (simp_all add: p_def t_def)
  have tk: "X = x"
    using p0 by (simp add: X Lx dbl_mul_def dbl_div_def dbl_add_def p_def x_def
        double_to_int_def)
  have eta: "5 * l / 2 ^ 53 \<le> 1 / 1000" using l by simp
  have t0: "0 \<le> t" "t < l"
  proof -
    show "0 \<le> t" using lpos c by (simp add: t_def)
    have "l / 360 * (c + off) < l / 360 * 360" using lpos c by (intro mult_strict_left_mono) auto
    then show "t < l" by (simp add: t_def)
  qed
  have x1: "real_of_int x \<le> p" "p < real_of_int x + 1" by (simp_all add: x_def)
  have x0: "0 \<le> x" using p0 by (simp add: x_def)
  have xl: "real_of_int x \<le> l + 1" using x1 pe t0 eta by linarith
  have "l < 2147483648" using l by simp
  then have "real_of_int x < 4294967296" using xl by linarith
  then have "x < 4294967296" by linarith
  then have x32: "x < 2 ^ 32" by simp
  have md: "?mid x
      = double_round (double_round (double_round (double_round (real_of_int x * 360) / l) - off)
                      + double_round (double_round (360 / l) / 2))"
  proof -
    have "\<bar>x\<bar> < 2 ^ 53" using x0 x32 by simp
    then have "dbl_of_int x = real_of_int x" by (rule dbl_of_int_exact)
    then show ?thesis
      by (simp add: Lx dbl_add_def dbl_sub_def dbl_div_def dbl_mul_def)
  qed
  have me: "\<bar>?mid x - (real_of_int x * 360 / l - off + 180 / l)\<bar> \<le> 4864 / 2 ^ 53"
    unfolding md by (rule mid_rounding_error [OF l(1) x0 xl x32 off])
  have cd: "real_of_int x * 360 / l - off + 180 / l - c = (real_of_int x - t + 1 / 2) * (360 / l)"
    using lpos by (simp add: t_def field_simps)
  have "\<bar>real_of_int x - t + 1 / 2\<bar> \<le> 1 / 2 + 5 * l / 2 ^ 53"
    using x1 pe by linarith
  then have "\<bar>real_of_int x - t + 1 / 2\<bar> * (360 / l) \<le> (1 / 2 + 5 * l / 2 ^ 53) * (360 / l)"
    using lpos by (intro mult_right_mono) auto
  also have "\<dots> = 180 / l + 1800 / 2 ^ 53" using lpos by (simp add: field_simps)
  finally have "\<bar>real_of_int x * 360 / l - off + 180 / l - c\<bar> \<le> 180 / l + 1800 / 2 ^ 53"
    unfolding cd abs_mult using lpos by simp
  then have "\<bar>?mid x - c\<bar> \<le> 180 / l + 6664 / 2 ^ 53" using me by linarith
  then show ?thesis unfolding tk l_def by simp
qed

text \<open>
  C6 as stated fails on a cell edge: on the grid of size 14 the longitude \<open>-180\<close> maps
  to cell 0, and the midpoint that \<open>XTOMIDLON\<close> computes for it,
  \<open>-167.14285714285714\<close>, is farther than \<open>180 / 14\<close> degrees from \<open>-180\<close>.
\<close>

theorem cell_midpoint_beyond_half_tick:
  "g_longranularity grid14 = 14
   \<and> LONTOX_double grid14 (- 180) = 0
   \<and> XTOMIDLON_double grid14 0 = - (5880816477704777 / 2 ^ 45)
   \<and> 180 / 14 < \<bar>XTOMIDLON_double grid14 (LONTOX_double grid14 (- 180)) - (- 180)\<bar>"
proof -
  have g: "g_longranularity grid14 = 14"
    by (simp add: grid14_def set_granularity_def)
  have a: "LONTOX_double grid14 (- 180) = 0"
    by (simp add: LONTOX_double_def dbl_add_def dbl_mul_def double_round_0 double_to_int_def)
  have i: "dbl_of_int 14 = 14" by (simp add: dbl_of_int_exact)
  have b: "dbl_div 360 (dbl_of_int 14) = 7237927972559726 / 2 ^ 48"
    unfolding i dbl_div_def by (rule round_360_14)
  have c: "dbl_div (7237927972559726 / 2 ^ 48) 2 = 7237927972559726 / 2 ^ 49"
    unfolding dbl_div_def by (rule round_360_14_half)
  have d: "dbl_sub (dbl_div (dbl_mul (dbl_of_int 0) 360) (dbl_of_int 14)) 180 = - 180"
    by (simp add: dbl_sub_def dbl_div_def dbl_mul_def dbl_of_int_exact double_round_0)
  have m: "XTOMIDLON_double grid14 0 = - (5880816477704777 / 2 ^ 45)"
    unfolding XTOMIDLON_double_def g b c d dbl_add_def by (rule round_midpoint_14)
  show ?thesis unfolding a m using g a by simp
qed

text \<open>
  C6 (as amended). For every latitude in \<open>[-90, 90)\<close>, every longitude in \<open>[-180, 180)\<close>
  and every positive grid size that an \<open>int\<close> holds (even or not), the midpoint that the
  macros compute for the cell a coordinate maps to is within half a cell width,
  \<open>180 / L\<close> degrees, of the coordinate, up to the rounding of the macros: the distance
  is at most \<open>180 / L + 2 powi - 40\<close> degrees, in both directions.
\<close>

theorem cell_midpoint_within_half_tick:
  assumes "0 < g_longranularity g" and "g_longranularity g < 2 ^ 31"
    and "- 90 \<le> lat" and "lat < 90" and "- 180 \<le> lon" and "lon < 180"
  shows "\<bar>YTOMIDLAT_double g (LATTOY_double g lat) - lat\<bar>
           \<le> 180 / real_of_int (g_longranularity g) + 1 / 2 ^ 40
       \<and> \<bar>XTOMIDLON_double g (LONTOX_double g lon) - lon\<bar>
           \<le> 180 / real_of_int (g_longranularity g) + 1 / 2 ^ 40"
proof -
  have "\<bar>YTOMIDLAT_double g (LATTOY_double g lat) - lat\<bar>
           \<le> 180 / real_of_int (g_longranularity g) + 1 / 2 ^ 40"
    unfolding YTOMIDLAT_double_def
    by (rule tick_mid_double [OF assms(1,2), where off = 90 and c = lat])
       (use assms in \<open>simp_all add: LATTOY_double_def\<close>)
  moreover have "\<bar>XTOMIDLON_double g (LONTOX_double g lon) - lon\<bar>
           \<le> 180 / real_of_int (g_longranularity g) + 1 / 2 ^ 40"
    unfolding XTOMIDLON_double_def
    by (rule tick_mid_double [OF assms(1,2), where off = 180 and c = lon])
       (use assms in \<open>simp_all add: LONTOX_double_def\<close>)
  ultimately show ?thesis by simp
qed

theorem cell_midpoint_within_half_tick_witness:
  "\<bar>YTOMIDLAT_double default_globals (LATTOY_double default_globals 40) - 40\<bar>
      \<le> 180 / 360 + 1 / 2 ^ 40
   \<and> \<bar>XTOMIDLON_double default_globals (LONTOX_double default_globals (- 74)) - (- 74)\<bar>
      \<le> 180 / 360 + 1 / 2 ^ 40"
  using cell_midpoint_within_half_tick [of default_globals 40 "- 74"]
  by (simp add: default_globals_def)

section \<open>Properties of the float conversion\<close>

lemma float_exponent_upto:
  "lo \<le> e \<Longrightarrow> e \<le> hi \<Longrightarrow> 2 powi e \<le> a \<Longrightarrow> a < 2 powi (e + 1)
     \<Longrightarrow> float_exponent a [lo..hi] = e"
proof (induction "nat (e - lo)" arbitrary: lo)
  case 0
  then have "lo = e" by simp
  moreover have "[e..hi] = e # [e + 1..hi]" using 0 by (simp add: upto_rec1)
  ultimately show ?case using 0 by simp
next
  case (Suc n)
  then have lt: "lo < e" by linarith
  have "2 powi (lo + 1) \<le> (2::real) powi e"
    using lt by (intro power_int_increasing) auto
  then have "\<not> a < 2 powi (lo + 1)" using Suc.prems by linarith
  moreover have "[lo..hi] = lo # [lo + 1..hi]" using lt Suc.prems by (simp add: upto_rec1)
  moreover have "float_exponent a [lo + 1..hi] = e"
    using Suc lt by (intro Suc.hyps(1)) auto
  ultimately show ?case by simp
qed

lemma float_round_0: "float_round 0 = 0"
  by (simp add: float_round_def round_half_even_def Let_def)

lemma float_round_ex: "float_round (1 + 1 / 2 ^ 30) = 1"
proof -
  have "float_exponent \<bar>1 + 1 / 2 ^ 30 :: real\<bar> [- 126..127] = 0"
    by (rule float_exponent_upto) simp_all
  then show ?thesis
    by (simp add: float_round_def round_half_even_def Let_def power_int_minus)
qed


section \<open>Properties of the sparse matrix codec\<close>

lemma sint_short_of_int: "- 32768 \<le> i \<Longrightarrow> i < 32768 \<Longrightarrow> sint (short_of_int i) = i"
  unfolding short_of_int_def by (simp add: sint_sbintrunc' signed_take_bit_int_eq_self)

lemma scatter_sentinel_fields:
  "sparsematrix_scatter g (ts @ \<lparr>sm_x = short_of_int (- 1), sm_y = a, sm_value = v\<rparr> # rest) m
   = sparsematrix_scatter g (ts @ \<lparr>sm_x = short_of_int (- 1), sm_y = b, sm_value = w\<rparr> # rest') m"
  by (induction ts arbitrary: m) (simp_all add: Let_def short_of_int_def)

lemma scatter_emit:
  assumes "\<forall>v\<in>set M. \<bar>v\<bar> \<le> FLT_MAX"
    and "length M = length acc"
    and "\<forall>(x, y)\<in>set cs. 0 \<le> x \<and> x < 32768 \<and> 0 \<le> y \<and> y < 32768
            \<and> 0 \<le> x + y * g_longranularity g \<and> x + y * g_longranularity g < int (length acc)"
  shows "\<exists>sm r. sm_emit g M cs = Some sm \<and> sparsematrix_scatter g sm acc = Some r
           \<and> length r = length acc
           \<and> (\<forall>i<length acc. r ! i =
                 (if i \<in> (\<lambda>(x, y). nat (x + y * g_longranularity g)) ` set cs \<and> M ! i \<noteq> 0
                  then float_round (M ! i) else acc ! i))"
  using assms
proof (induction cs arbitrary: acc)
  case Nil
  then show ?case by (simp add: sm_sentinel_def short_of_int_def)
next
  case (Cons c cs)
  obtain x y where c: "c = (x, y)" by (cases c)
  let ?idx = "x + y * g_longranularity g"
  have rng: "0 \<le> x" "x < 32768" "0 \<le> y" "y < 32768" "0 \<le> ?idx" "?idx < int (length acc)"
    using Cons.prems(3) c by auto
  show ?case
  proof (cases "M ! nat ?idx = 0")
    case True
    have "\<exists>sm r. sm_emit g M cs = Some sm \<and> sparsematrix_scatter g sm acc = Some r
           \<and> length r = length acc
           \<and> (\<forall>i<length acc. r ! i =
                 (if i \<in> (\<lambda>(x, y). nat (x + y * g_longranularity g)) ` set cs \<and> M ! i \<noteq> 0
                  then float_round (M ! i) else acc ! i))"
      using Cons.prems by (intro Cons.IH) auto
    then obtain sm r where *: "sm_emit g M cs = Some sm" "sparsematrix_scatter g sm acc = Some r"
       "length r = length acc"
       "\<forall>i<length acc. r ! i =
                 (if i \<in> (\<lambda>(x, y). nat (x + y * g_longranularity g)) ` set cs \<and> M ! i \<noteq> 0
                  then float_round (M ! i) else acc ! i)" by blast
    have "\<forall>i<length acc. r ! i =
                 (if i \<in> (\<lambda>(x, y). nat (x + y * g_longranularity g)) ` set (c # cs) \<and> M ! i \<noteq> 0
                  then float_round (M ! i) else acc ! i)"
      using * True c by auto
    then show ?thesis using * True c by simp
  next
    case False
    let ?v = "M ! nat ?idx"
    let ?acc = "acc[nat ?idx := float_round ?v]"
    have inM: "?v \<in> set M" using rng Cons.prems(2) by (intro nth_mem) auto
    then have f: "double_to_float ?v = Some (float_round ?v)"
      using Cons.prems(1) by (auto simp: double_to_float_def)
    have "\<exists>sm r. sm_emit g M cs = Some sm \<and> sparsematrix_scatter g sm ?acc = Some r
           \<and> length r = length ?acc
           \<and> (\<forall>i<length ?acc. r ! i =
                 (if i \<in> (\<lambda>(x, y). nat (x + y * g_longranularity g)) ` set cs \<and> M ! i \<noteq> 0
                  then float_round (M ! i) else ?acc ! i))"
      using Cons.prems by (intro Cons.IH) auto
    then obtain sm r where *: "sm_emit g M cs = Some sm" "sparsematrix_scatter g sm ?acc = Some r"
       "length r = length acc"
       "\<forall>i<length acc. r ! i =
                 (if i \<in> (\<lambda>(x, y). nat (x + y * g_longranularity g)) ` set cs \<and> M ! i \<noteq> 0
                  then float_round (M ! i) else ?acc ! i)" by auto
    let ?t = "\<lparr>sm_x = short_of_int x, sm_y = short_of_int y, sm_value = float_round ?v\<rparr>"
    have e: "sm_emit g M (c # cs) = Some (?t # sm)"
      using False c f * by simp
    have s: "sparsematrix_scatter g (?t # sm) acc = Some r"
      using rng * by (simp add: sint_short_of_int Let_def)
    have "\<forall>i<length acc. r ! i =
                 (if i \<in> (\<lambda>(x, y). nat (x + y * g_longranularity g)) ` set (c # cs) \<and> M ! i \<noteq> 0
                  then float_round (M ! i) else acc ! i)"
    proof (intro allI impI)
      fix i assume i: "i < length acc"
      show "r ! i = (if i \<in> (\<lambda>(x, y). nat (x + y * g_longranularity g)) ` set (c # cs) \<and> M ! i \<noteq> 0
                  then float_round (M ! i) else acc ! i)"
      proof (cases "i = nat ?idx")
        case True
        then show ?thesis using *(4) i False c by (auto simp: nth_list_update)
      next
        case ne: False
        then show ?thesis using *(4) i c by (auto simp: nth_list_update)
      qed
    qed
    then show ?thesis using e s * by blast
  qed
qed


lemma set_column_major:
  "set (column_major g) =
     {(x, y). 0 \<le> x \<and> x < g_longranularity g \<and> 0 \<le> y \<and> y < g_latgranularity g}"
  by (auto simp: column_major_def)

lemma cell_index_bounds:
  fixes x y L H :: int
  assumes "0 \<le> x" "x < L" "0 \<le> y" "y < H"
  shows "0 \<le> x + y * L" and "x + y * L < H * L"
proof -
  show "0 \<le> x + y * L" using assms by simp
  have "y + 1 \<le> H" using assms by simp
  then have "(y + 1) * L \<le> H * L" using assms by (intro mult_right_mono) auto
  then show "x + y * L < H * L" using assms by (simp add: algebra_simps)
qed

lemma cell_index_onto:
  fixes L H :: int
  assumes "0 < L" "i < nat (H * L)"
  shows "i \<in> (\<lambda>(x, y). nat (x + y * L)) ` {(x, y). 0 \<le> x \<and> x < L \<and> 0 \<le> y \<and> y < H}"
proof -
  let ?x = "int i mod L" and ?y = "int i div L"
  have i: "int i < H * L" using assms by linarith
  have "0 \<le> ?x" "?x < L" "0 \<le> ?y" using assms by (simp_all add: pos_imp_zdiv_nonneg_iff)
  moreover have "?y < H"
  proof (rule ccontr)
    assume "\<not> ?y < H"
    then have "H * L \<le> ?y * L" using assms by (intro mult_right_mono) auto
    also have "\<dots> \<le> int i"
      using assms(1) div_mult_mod_eq [of "int i" L] pos_mod_sign [of L "int i"] by linarith
    finally show False using i by simp
  qed
  moreover have "nat (?x + ?y * L) = i" by simp
  ultimately show ?thesis by (intro image_eqI [where x = "(?x, ?y)"]) auto
qed

text \<open>
  C2 (as amended). For every grid with \<open>0 < L \<le> 32768\<close> and every dense matrix of
  \<open>g_latgranularity * L\<close> cells whose values are within the range of \<open>float\<close>, encoding
  succeeds and decoding the result yields, at every cell, the value of the matrix
  rounded to \<open>float\<close>; it is the matrix itself exactly when every value is a float.
\<close>

theorem sparse_roundtrip_rounds_to_float:
  assumes L: "0 < g_longranularity g" "g_longranularity g \<le> 32768"
    and H: "g_latgranularity g \<le> 32768"
    and len: "length M = nat (g_latgranularity g * g_longranularity g)"
    and rng: "\<forall>v\<in>set M. \<bar>v\<bar> \<le> FLT_MAX"
  shows "Option.bind (matrix_to_sparsematrix g M) (sparsematrix_to_matrix g)
           = Some (map float_round M)"
proof -
  let ?L = "g_longranularity g" and ?H = "g_latgranularity g"
  let ?acc = "replicate (nat (?H * ?L)) (0::real)"
  have cells: "\<forall>(x, y)\<in>set (column_major g). 0 \<le> x \<and> x < 32768 \<and> 0 \<le> y \<and> y < 32768
            \<and> 0 \<le> x + y * ?L \<and> x + y * ?L < int (length ?acc)"
  proof (clarsimp simp: set_column_major, intro conjI)
    fix x y assume a: "0 \<le> x" "x < ?L" "0 \<le> y" "y < ?H"
    show "x < 32768" using a L by simp
    show "y < 32768" using a H by simp
    show "x + y * ?L < ?H * ?L" using cell_index_bounds(2) [OF a] .
  qed
  have "length M = length ?acc" using len by simp
  from scatter_emit [OF rng this cells]
  obtain sm r where *: "sm_emit g M (column_major g) = Some sm"
    "sparsematrix_scatter g sm ?acc = Some r" "length r = length ?acc"
    "\<forall>i<length ?acc. r ! i =
        (if i \<in> (\<lambda>(x, y). nat (x + y * ?L)) ` set (column_major g) \<and> M ! i \<noteq> 0
         then float_round (M ! i) else ?acc ! i)" by blast
  have "r = map float_round M"
  proof (rule nth_equalityI)
    show "length r = length (map float_round M)" using * len by simp
  next
    fix i assume "i < length r"
    then have i: "i < nat (?H * ?L)" using * by simp
    have "i \<in> (\<lambda>(x, y). nat (x + y * ?L)) ` set (column_major g)"
      unfolding set_column_major using cell_index_onto [OF L(1) i] .
    then have "r ! i = (if M ! i \<noteq> 0 then float_round (M ! i) else 0)"
      using *(4) i by simp
    then show "r ! i = map float_round M ! i"
      using i len by (simp add: float_round_0)
  qed
  then show ?thesis using *
    by (simp add: matrix_to_sparsematrix_def sparsematrix_to_matrix_def)
qed

lemma upto_0_1: "[0..1] = [0, 1]"
  by (simp add: upto_rec1)

lemma grid2_simps: "g_longranularity grid2 = 2" "g_latgranularity grid2 = 1"
  by (simp_all add: grid2_def set_granularity_def c_div_def)

text \<open>
  C2 as stated fails: on the two-cell grid, the matrix with \<open>1 + 2 powi - 30\<close> (a double,
  not a float) in cell 0 is encoded and decoded to a different matrix.
\<close>

theorem sparse_roundtrip_counterexample: "Option.bind (matrix_to_sparsematrix grid2 [1 + 1 / 2 ^ 30, 0]) (sparsematrix_to_matrix grid2)
   \<noteq> Some [1 + 1 / 2 ^ 30, 0]"
proof -
  have f: "double_to_float (1 + 1 / 2 ^ 30) = Some 1"
    unfolding double_to_float_def float_round_ex by (simp add: FLT_MAX_def)
  have c: "column_major grid2 = [(0, 0), (1, 0)]"
    by (simp add: column_major_def grid2_simps upto_0_1)
  have e: "matrix_to_sparsematrix grid2 [1 + 1 / 2 ^ 30, 0]
      = Some [\<lparr>sm_x = short_of_int 0, sm_y = short_of_int 0, sm_value = 1\<rparr>, sm_sentinel]"
    unfolding matrix_to_sparsematrix_def c by (simp add: grid2_simps f [simplified])
  have d: "sparsematrix_to_matrix grid2
       [\<lparr>sm_x = short_of_int 0, sm_y = short_of_int 0, sm_value = 1\<rparr>, sm_sentinel] = Some [1, 0]"
    by (simp add: sparsematrix_to_matrix_def grid2_simps sm_sentinel_def short_of_int_def
        numeral_2_eq_2)
  show ?thesis unfolding e by (simp add: d)
qed

lemma float_round_float:
  "float_round (1 / 2) = 1 / 2"
proof -
  have "float_exponent \<bar>1 / 2 :: real\<bar> [- 126..127] = - 1"
    by (rule float_exponent_upto) (simp_all add: power_int_minus)
  then show ?thesis
    by (simp add: float_round_def round_half_even_def Let_def power_int_minus)
qed

theorem sparse_roundtrip_rounds_to_float_witness:
  "Option.bind (matrix_to_sparsematrix grid2 [1 / 2, 0]) (sparsematrix_to_matrix grid2)
     = Some [1 / 2, 0]"
  using sparse_roundtrip_rounds_to_float [of grid2 "[1 / 2, 0]"]
  by (simp add: grid2_simps FLT_MAX_def float_round_float float_round_0)

lemma read_matrix_section_sentinel:
  "sparsematrix_add smh (- 1) (- 1) 0 = Some (smh @ [sm_reader_sentinel])"
  by (simp add: sparsematrix_add_def double_to_float_def float_round_0 FLT_MAX_def
      sm_reader_sentinel_def)

lemma read_matrix_section_ends_with_sentinel:
  assumes "read_matrix_section ls = Some sm"
  shows "\<exists>ts. sm = ts @ [sm_reader_sentinel]"
proof -
  from assms obtain smh where "sparsematrix_add smh (- 1) (- 1) 0 = Some sm"
    by (auto simp: read_matrix_section_def split: bind_splits)
  then show ?thesis by (auto simp: read_matrix_section_sentinel)
qed

text \<open>
  C9. The decoder stops at the first triple whose \<open>x\<close> is \<open>-1\<close>: the \<open>y\<close> and
  \<open>value\<close> fields of that triple, and whatever follows it, have no effect on the
  result. So a sequence of triples terminated as the encoder does (value \<open>-1.0\<close>) and
  the same sequence terminated as the model reader does (value \<open>0.0\<close>) decode to the
  same dense matrix (or are both undefined, when a triple falls outside the grid).
\<close>

theorem decode_ignores_sentinel_fields:
  "sparsematrix_to_matrix g (ts @ \<lparr>sm_x = short_of_int (- 1), sm_y = a, sm_value = v\<rparr> # rest)
     = sparsematrix_to_matrix g (ts @ \<lparr>sm_x = short_of_int (- 1), sm_y = b, sm_value = w\<rparr> # rest')
   \<and> sparsematrix_to_matrix g (ts @ [sm_sentinel])
     = sparsematrix_to_matrix g (ts @ [sm_reader_sentinel])"
  unfolding sparsematrix_to_matrix_def sm_sentinel_def sm_reader_sentinel_def
  using scatter_sentinel_fields by blast

section \<open>Properties of the centroid table\<close>

lemma tick_nonneg:
  fixes L :: int and t :: real
  assumes "0 < L" "0 \<le> t"
  shows "0 \<le> double_to_int (real_of_int L / 360 * t)"
proof -
  have "0 \<le> real_of_int L / 360 * t" using assms by simp
  then show ?thesis by (simp only: double_to_int_nonneg zero_le_floor of_int_0)
qed

lemma tick_less:
  fixes L :: int and t b :: real
  assumes "0 < L" "0 \<le> t" "t < b"
  shows "real_of_int (double_to_int (real_of_int L / 360 * t)) < real_of_int L / 360 * b"
proof -
  have nn: "0 \<le> real_of_int L / 360 * t" using assms by simp
  have "real_of_int \<lfloor>real_of_int L / 360 * t\<rfloor> \<le> real_of_int L / 360 * t"
    by (rule of_int_floor_le)
  also have "\<dots> < real_of_int L / 360 * b" using assms by simp
  finally show ?thesis by (simp only: double_to_int_nonneg [OF nn])
qed

lemma valid_point_xy:
  assumes L: "0 < g_longranularity g" "even (g_longranularity g)"
    and p: "valid_point p"
  shows "0 \<le> LONTOX g (cl_lon p)" "LONTOX g (cl_lon p) < g_longranularity g"
    "0 \<le> LATTOY g (cl_lat p)" "LATTOY g (cl_lat p) < g_longranularity g div 2"
proof -
  let ?L = "g_longranularity g"
  have a: "0 \<le> cl_lon p + 180" "cl_lon p + 180 < 360" "0 \<le> cl_lat p + 90" "cl_lat p + 90 < 180"
    using p by (simp_all add: valid_point_def)
  show "0 \<le> LONTOX g (cl_lon p)" unfolding LONTOX_def by (rule tick_nonneg [OF L(1) a(1)])
  have "real_of_int (LONTOX g (cl_lon p)) < real_of_int ?L / 360 * 360"
    unfolding LONTOX_def by (rule tick_less [OF L(1) a(1) a(2)])
  then show "LONTOX g (cl_lon p) < ?L" by simp
  show "0 \<le> LATTOY g (cl_lat p)" unfolding LATTOY_def by (rule tick_nonneg [OF L(1) a(3)])
  have "real_of_int (LATTOY g (cl_lat p)) < real_of_int ?L / 360 * 180"
    unfolding LATTOY_def by (rule tick_less [OF L(1) a(3) a(4)])
  moreover have "real_of_int ?L = 2 * real_of_int (?L div 2)"
    using L(2) by (metis even_two_times_div_two of_int_mult of_int_numeral)
  ultimately have "real_of_int (LATTOY g (cl_lat p)) < real_of_int (?L div 2)" by simp
  then show "LATTOY g (cl_lat p) < ?L div 2" by simp
qed
































section \<open>Properties of the feature store\<close>

lemma next_slot_mod: "x < n \<Longrightarrow> next_slot n x = (x + 1) mod n"
proof (cases "x + 1 < n")
  case True
  then show ?thesis by (simp add: next_slot_def)
next
  case False
  assume "x < n"
  then have "x + 1 = n" using False by simp
  then show ?thesis by (auto simp: next_slot_def)
qed


lemma next_slot_funpow: "x < n \<Longrightarrow> (next_slot n ^^ k) x = (x + k) mod n"
proof (induction k)
  case 0
  then show ?case by simp
next
  case (Suc k)
  have "(x + k) mod n < n" using Suc.prems by simp
  then have "next_slot n ((x + k) mod n) = ((x + k) mod n + 1) mod n" by (rule next_slot_mod)
  also have "\<dots> = (x + Suc k) mod n" by (simp add: mod_Suc_eq)
  finally show ?case using Suc by simp
qed

lemma probe_free_steps:
  assumes "wt_value (t ! ((next_slot n ^^ k) h)) = - 1"
  shows "\<exists>f. wordhash_probe_free t n h = Some f \<and> wt_value (t ! f) = - 1
             \<and> (\<exists>j. f = (next_slot n ^^ j) h)"
  using assms
proof (induction k arbitrary: h)
  case 0
  then have "wordhash_probe_free t n h = Some h" by (subst wordhash_probe_free.simps) simp
  moreover have "h = (next_slot n ^^ 0) h" by simp
  ultimately show ?case using 0 by (metis funpow_0)
next
  case (Suc k)
  show ?case
  proof (cases "wt_value (t ! h) = - 1")
    case True
    then have "wordhash_probe_free t n h = Some h" by (subst wordhash_probe_free.simps) simp
    then show ?thesis using True by (metis funpow_0)
  next
    case False
    have "wt_value (t ! ((next_slot n ^^ k) (next_slot n h))) = - 1"
      using Suc.prems by (simp add: funpow_swap1)
    from Suc.IH [OF this] obtain f j where
      f: "wordhash_probe_free t n (next_slot n h) = Some f" "wt_value (t ! f) = - 1"
         "f = (next_slot n ^^ j) (next_slot n h)" by blast
    have "wordhash_probe_free t n h = Some f"
      using False f(1) by (subst wordhash_probe_free.simps) simp
    moreover have "f = (next_slot n ^^ Suc j) h" using f(3) by (simp add: funpow_swap1)
    ultimately show ?thesis using f(2) by blast
  qed
qed

lemma probe_free_returns:
  assumes "h < n" "i < n" "wt_value (t ! i) = - 1"
  shows "\<exists>f<n. wordhash_probe_free t n h = Some f \<and> wt_value (t ! f) = - 1"
proof -
  let ?k = "(i + n - h) mod n"
  have "(h + ?k) mod n = (h + (i + n - h)) mod n" by (simp add: mod_add_right_eq)
  also have "\<dots> = (i + n) mod n" using assms by simp
  also have "\<dots> = i" using assms by simp
  finally have "(next_slot n ^^ ?k) h = i" using assms by (simp add: next_slot_funpow)
  then have "wt_value (t ! ((next_slot n ^^ ?k) h)) = - 1" using assms by simp
  from probe_free_steps [OF this] obtain f j where
    f: "wordhash_probe_free t n h = Some f" "wt_value (t ! f) = - 1" "f = (next_slot n ^^ j) h"
    by blast
  have "f < n" using f(3) assms by (simp add: next_slot_funpow)
  then show ?thesis using f by blast
qed

lemma free_exists:
  assumes "occupied t < length t"
  shows "\<exists>i<length t. wt_value (t ! i) = - 1"
proof (rule ccontr)
  assume "\<not> (\<exists>i<length t. wt_value (t ! i) = - 1)"
  then have "\<forall>e\<in>set t. wt_value e \<noteq> - 1" by (auto simp: in_set_conv_nth)
  then have "filter (\<lambda>e. wt_value e \<noteq> - 1) t = t" by (simp add: filter_id_conv)
  then show False using assms by (simp add: occupied_def)
qed

lemma occupied_update:
  assumes "f < length t" "wt_value (t ! f) = - 1" "v \<noteq> - 1"
  shows "occupied (t[f := \<lparr>wt_word = w, wt_value = v\<rparr>]) = occupied t + 1"
  using assms
proof (induction t arbitrary: f)
  case Nil
  then show ?case by simp
next
  case (Cons e t)
  show ?case
  proof (cases f)
    case 0
    then show ?thesis using Cons.prems by (simp add: occupied_def)
  next
    case (Suc f')
    then have "occupied (t[f' := \<lparr>wt_word = w, wt_value = v\<rparr>]) = occupied t + 1"
      using Cons.prems by (intro Cons.IH) auto
    then show ?thesis using Suc by (simp add: occupied_def)
  qed
qed

lemma occupied_replicate_free: "occupied (replicate n free_slot) = 0"
  by (simp add: occupied_def free_slot_def)

lemma first_slot_less: "0 < wh_tablesize wh \<Longrightarrow> first_slot wh word < wh_tablesize wh"
  by (simp add: first_slot_def)

lemma insert_with_value_returns:
  assumes "length (wh_table wh) = wh_tablesize wh" "occupied (wh_table wh) < wh_tablesize wh"
    and "v \<noteq> - 1"
  shows "\<exists>wh'. wordhash_insert_with_value wh word v = Some wh'
           \<and> length (wh_table wh') = wh_tablesize wh' \<and> wh_tablesize wh' = wh_tablesize wh
           \<and> wh_occupancy wh' = wh_occupancy wh
           \<and> occupied (wh_table wh') = occupied (wh_table wh) + 1"
proof -
  have pos: "0 < wh_tablesize wh" using assms(2) by simp
  obtain i where i: "i < wh_tablesize wh" "wt_value (wh_table wh ! i) = - 1"
    using free_exists [of "wh_table wh"] assms by auto
  from probe_free_returns [OF first_slot_less [OF pos] i]
  obtain f where f: "f < wh_tablesize wh"
    "wordhash_probe_free (wh_table wh) (wh_tablesize wh) (first_slot wh word) = Some f"
    "wt_value (wh_table wh ! f) = - 1" by blast
  show ?thesis
    using f assms occupied_update [of f "wh_table wh" v word]
    by (simp add: wordhash_insert_with_value_def)
qed

lemma rehash_entries_returns:
  assumes "length (wh_table wh) = wh_tablesize wh"
    and "occupied (wh_table wh) + occupied es < wh_tablesize wh"
  shows "\<exists>wh'. rehash_entries wh es = Some wh'
           \<and> length (wh_table wh') = wh_tablesize wh' \<and> wh_tablesize wh' = wh_tablesize wh
           \<and> wh_occupancy wh' = wh_occupancy wh
           \<and> occupied (wh_table wh') = occupied (wh_table wh) + occupied es"
  using assms
proof (induction es arbitrary: wh)
  case Nil
  then show ?case by (simp add: occupied_def)
next
  case (Cons e es)
  show ?case
  proof (cases "wt_value e = - 1")
    case True
    have "\<exists>wh'. rehash_entries wh es = Some wh'
           \<and> length (wh_table wh') = wh_tablesize wh' \<and> wh_tablesize wh' = wh_tablesize wh
           \<and> wh_occupancy wh' = wh_occupancy wh
           \<and> occupied (wh_table wh') = occupied (wh_table wh) + occupied es"
      using Cons.prems True by (intro Cons.IH; simp add: occupied_def)
    then show ?thesis using True by (auto simp: occupied_def)
  next
    case False
    have "occupied (wh_table wh) < wh_tablesize wh" using Cons.prems by simp
    from insert_with_value_returns [OF Cons.prems(1) this False, of "wt_word e"]
    obtain wh1 where wh1: "wordhash_insert_with_value wh (wt_word e) (wt_value e) = Some wh1"
      "length (wh_table wh1) = wh_tablesize wh1" "wh_tablesize wh1 = wh_tablesize wh"
      "wh_occupancy wh1 = wh_occupancy wh"
      "occupied (wh_table wh1) = occupied (wh_table wh) + 1" by blast
    have "\<exists>wh'. rehash_entries wh1 es = Some wh'
           \<and> length (wh_table wh') = wh_tablesize wh' \<and> wh_tablesize wh' = wh_tablesize wh1
           \<and> wh_occupancy wh' = wh_occupancy wh1
           \<and> occupied (wh_table wh') = occupied (wh_table wh1) + occupied es"
      using Cons.prems wh1 False by (intro Cons.IH; simp add: occupied_def)
    then show ?thesis using False wh1 by (auto simp: occupied_def)
  qed
qed

lemma occupied_update_le: "occupied (t[f := e]) \<le> occupied t + 1"
proof (induction t arbitrary: f)
  case Nil
  show ?case by simp
next
  case (Cons x t)
  show ?case
  proof (cases f)
    case 0
    then show ?thesis by (simp add: occupied_def)
  next
    case (Suc f')
    then show ?thesis using Cons.IH [of f'] by (simp add: occupied_def)
  qed
qed


lemma occupy_returns:
  assumes wf: "wordhash_wf wh" and f: "f < wh_tablesize wh"
  shows "\<exists>wh'. occupy wh f word v = Some wh' \<and> wordhash_wf wh'
           \<and> wh_occupancy wh' = wh_occupancy wh + 1"
proof -
  let ?wh = "wh\<lparr>wh_table := (wh_table wh)[f := \<lparr>wt_word = word, wt_value = v\<rparr>],
                   wh_occupancy := wh_occupancy wh + 1\<rparr>"
  have len: "length (wh_table wh) = wh_tablesize wh" and sz: "2 \<le> wh_tablesize wh"
    and oc: "occupied (wh_table wh) \<le> wh_occupancy wh"
    and half: "2 * wh_occupancy wh \<le> wh_tablesize wh"
    using wf by (simp_all add: wordhash_wf_def)
  have occ: "occupied (wh_table ?wh) \<le> occupied (wh_table wh) + 1"
    using occupied_update_le [of "wh_table wh" f] by simp
  show ?thesis
  proof (cases "wh_occupancy ?wh > wh_tablesize ?wh div 2")
    case False
    then have "occupy wh f word v = Some ?wh" by (simp add: occupy_def Let_def)
    moreover have "wordhash_wf ?wh"
      using False len sz oc occ by (simp add: wordhash_wf_def)
    ultimately show ?thesis by simp
  next
    case True
    let ?new = "?wh\<lparr>wh_table := replicate (wh_tablesize ?wh * 2) free_slot,
                     wh_tablesize := wh_tablesize ?wh * 2\<rparr>"
    have otake: "occupied (take (wh_tablesize ?wh) (wh_table ?wh)) \<le> occupied (wh_table wh) + 1"
      using occ len by simp
    have "\<exists>wh'. rehash_entries ?new (take (wh_tablesize ?wh) (wh_table ?wh)) = Some wh'
           \<and> length (wh_table wh') = wh_tablesize wh' \<and> wh_tablesize wh' = wh_tablesize ?new
           \<and> wh_occupancy wh' = wh_occupancy ?new
           \<and> occupied (wh_table wh')
                = occupied (wh_table ?new) + occupied (take (wh_tablesize ?wh) (wh_table ?wh))"
    proof (rule rehash_entries_returns)
      show "length (wh_table ?new) = wh_tablesize ?new" by simp
      have "occupied (wh_table wh) + 1 < wh_tablesize wh * 2" using oc half sz by linarith
      then have "occupied (take (wh_tablesize ?wh) (wh_table ?wh)) < wh_tablesize wh * 2"
        using otake by linarith
      then show "occupied (wh_table ?new) + occupied (take (wh_tablesize ?wh) (wh_table ?wh))
            < wh_tablesize ?new"
        by (simp add: occupied_replicate_free)
    qed
    then obtain wh' where r: "rehash_entries ?new (take (wh_tablesize ?wh) (wh_table ?wh)) = Some wh'"
      "length (wh_table wh') = wh_tablesize wh'" "wh_tablesize wh' = wh_tablesize wh * 2"
      "wh_occupancy wh' = wh_occupancy wh + 1"
      "occupied (wh_table wh') = occupied (take (wh_tablesize ?wh) (wh_table ?wh))"
      by (auto simp: occupied_replicate_free)
    have e: "occupy wh f word v = Some wh'"
      using True r(1) by (simp add: occupy_def Let_def wordhash_rehash_def)
    have "occupied (wh_table wh') \<le> occupied (wh_table wh) + 1" using r(5) otake by simp
    then have "wordhash_wf wh'"
      using r(2-4) sz oc half by (simp add: wordhash_wf_def)
    then show ?thesis using e r by simp
  qed
qed





lemma wordhash_insert_returns:
  assumes "wordhash_wf wh"
  shows "\<exists>wh'. wordhash_insert wh word = Some (wh', int (wh_occupancy wh))
           \<and> wordhash_wf wh' \<and> wh_occupancy wh' = wh_occupancy wh + 1"
proof -
  have len: "length (wh_table wh) = wh_tablesize wh" and sz: "2 \<le> wh_tablesize wh"
    and oc: "occupied (wh_table wh) \<le> wh_occupancy wh"
    and half: "2 * wh_occupancy wh \<le> wh_tablesize wh"
    using assms by (simp_all add: wordhash_wf_def)
  have pos: "0 < wh_tablesize wh" using sz by simp
  have "occupied (wh_table wh) < length (wh_table wh)" using len sz oc half by linarith
  then obtain i where i: "i < wh_tablesize wh" "wt_value (wh_table wh ! i) = - 1"
    using free_exists [of "wh_table wh"] len by auto
  from probe_free_returns [OF first_slot_less [OF pos] i]
  obtain f where f: "f < wh_tablesize wh"
    "wordhash_probe_free (wh_table wh) (wh_tablesize wh) (first_slot wh word) = Some f"
    "wt_value (wh_table wh ! f) = - 1" by blast
  from occupy_returns [OF assms f(1), of word "int (wh_occupancy wh)"]
  obtain wh' where wh': "occupy wh f word (int (wh_occupancy wh)) = Some wh'"
    "wordhash_wf wh'" "wh_occupancy wh' = wh_occupancy wh + 1" by blast
  show ?thesis using f(2) wh' by (simp add: wordhash_insert_def)
qed

lemma wordhash_find_loop_step:
  "0 < j \<Longrightarrow> wordhash_find_loop table tablesize word hash j =
     (if wt_value (table ! hash) = - 1 then - 1
      else if wt_word (table ! hash) = word then wt_value (table ! hash)
      else wordhash_find_loop table tablesize word (next_slot tablesize hash) (j - 1))"
  by (cases j) simp_all


lemma hash_alpha: "unat (wordhash_hashf ''alpha'') mod 128 = 43"
  by (simp add: wordhash_hashf_def char_to_uint_def)

lemma hash_zzz: "unat (wordhash_hashf ''zzz'') mod 128 = 19"
  by (simp add: wordhash_hashf_def char_to_uint_def)

lemma wordhash_init_wf: "2 \<le> n \<Longrightarrow> wordhash_wf (wordhash_init n)"
  by (simp add: wordhash_wf_def wordhash_init_def occupied_replicate_free)

lemma wordhash_init_find: "wordhash_find (wordhash_init 128) ''alpha'' = - 1"
  by (simp add: wordhash_find_def wordhash_init_def first_slot_def hash_alpha
      wordhash_find_loop_step free_slot_def)

lemma wordhash_init_occupancy: "wh_occupancy (wordhash_init n) = 0"
  by (simp add: wordhash_init_def)

lemma insert_alpha:
  "wordhash_insert (wordhash_init 128) ''alpha''
     = Some (\<lparr>wh_table = (replicate 128 free_slot)[43 := \<lparr>wt_word = ''alpha'', wt_value = 0\<rparr>],
              wh_tablesize = 128, wh_occupancy = 1\<rparr>, 0)"
proof -
  have "wordhash_probe_free (replicate 128 free_slot) 128 43 = Some 43"
    by (subst wordhash_probe_free.simps) (simp add: free_slot_def)
  then show ?thesis
    by (simp add: wordhash_insert_def wordhash_init_def first_slot_def hash_alpha occupy_def Let_def)
qed

lemma first_observation_count:
  assumes "wordhash_wf (global_wh_train st)"
    and "wordhash_find (global_wh_train st) word = - 1"
    and "wh_occupancy (global_wh_train st) < 2 * length (wc_list st)"
    and "\<bar>lat\<bar> \<le> FLT_MAX" and "\<bar>lon\<bar> \<le> FLT_MAX"
  shows "\<exists>st' wh. wordhash_insert (global_wh_train st) word
                      = Some (wh, int (wh_occupancy (global_wh_train st)))
           \<and> word_coord_add_word st word lat lon storeword = Some st'
           \<and> global_wh_train st' = wh
           \<and> wi_count (wc_list st' ! wh_occupancy (global_wh_train st)) = 0"
proof -
  from wordhash_insert_returns [OF assms(1), of word]
  obtain wh where ins: "wordhash_insert (global_wh_train st) word
                          = Some (wh, int (wh_occupancy (global_wh_train st)))" by blast
  show ?thesis
    using assms(2-) ins
    by (auto simp: word_coord_add_word_def add_observation_def Let_def
        double_to_float_def nth_append)
qed

lemma later_observation_count:
  assumes "wordhash_find (global_wh_train st) word \<noteq> - 1"
    and "word_coord_add_word st word lat lon storeword = Some st'"
  shows "word_coord_get_count st' word
           = map_option (\<lambda>c. c + 1) (word_coord_get_count st word)"
  using assms
  by (auto simp: word_coord_add_word_def add_observation_def Let_def
        double_to_float_def word_coord_get_count_def split: if_splits)

lemma train_retained_counts:
  assumes "wc_list_max st < length (wc_list st)"
  shows "train_retained g (st\<lparr>wc_list := map (\<lambda>wi. wi\<lparr>wi_count := f wi\<rparr>) (wc_list st)\<rparr>)
           = train_retained g st"
  using assms unfolding train_retained_def by (intro filter_cong) auto

text \<open>
  C8. When \<open>word_coord_add_word\<close> sees a feature for the first time, the record at the
  index that \<open>wordhash_insert\<close> hands out gets the count \<open>-1\<close>, which is then
  incremented: after this first observation the count field of the new record is \<open>0\<close>.
  The trainer retains a feature exactly when the length of its point list is at
  least the threshold; the count fields play no part in it.
\<close>

theorem first_count_zero_and_threshold_on_points:
  assumes "wordhash_wf (global_wh_train st)"
    and "wordhash_find (global_wh_train st) word = - 1"
    and "wh_occupancy (global_wh_train st) < 2 * length (wc_list st)"
    and "\<bar>lat\<bar> \<le> FLT_MAX" and "\<bar>lon\<bar> \<le> FLT_MAX"
    and "wc_list_max st < length (wc_list st)"
  shows "(\<exists>st' wh. wordhash_insert (global_wh_train st) word
                       = Some (wh, int (wh_occupancy (global_wh_train st)))
            \<and> word_coord_add_word st word lat lon storeword = Some st'
            \<and> global_wh_train st' = wh
            \<and> wi_count (wc_list st' ! wh_occupancy (global_wh_train st)) = 0)
       \<and> train_retained g st
            = filter (\<lambda>i. g_threshold g \<le> int (length (wi_coordinate_list (wc_list st ! i))))
                [0..<wc_list_max st + 1]
       \<and> train_retained g (st\<lparr>wc_list := map (\<lambda>wi. wi\<lparr>wi_count := f wi\<rparr>) (wc_list st)\<rparr>)
            = train_retained g st"
proof -
  have "\<exists>st' wh. wordhash_insert (global_wh_train st) word
                       = Some (wh, int (wh_occupancy (global_wh_train st)))
            \<and> word_coord_add_word st word lat lon storeword = Some st'
            \<and> global_wh_train st' = wh
            \<and> wi_count (wc_list st' ! wh_occupancy (global_wh_train st)) = 0"
    by (rule first_observation_count [OF assms(1-5)])
  moreover have "train_retained g st
            = filter (\<lambda>i. g_threshold g \<le> int (length (wi_coordinate_list (wc_list st ! i))))
                [0..<wc_list_max st + 1]"
    unfolding train_retained_def by (intro filter_cong) auto
  ultimately show ?thesis using train_retained_counts [OF assms(6)] by blast
qed

theorem first_count_zero_and_threshold_on_points_witness:
  "(\<exists>st'. word_coord_add_word initial_store ''alpha'' 40 (- 74) 1 = Some st'
            \<and> wi_count (wc_list st' ! 0) = 0
            \<and> word_coord_get_count st' ''alpha'' = Some 0)
   \<and> train_retained default_globals initial_store = []
   \<and> train_retained default_globals
        (initial_store\<lparr>wc_list := map (\<lambda>wi. wi\<lparr>wi_count := 5\<rparr>) (wc_list initial_store)\<rparr>)
        = train_retained default_globals initial_store"
proof -
  from first_count_zero_and_threshold_on_points
    [where st = initial_store and word = "''alpha''" and lat = 40 and lon = "- 74"
       and g = default_globals and f = "\<lambda>wi. 5" and storeword = 1]
    wordhash_init_wf [of 128] wordhash_init_find
  obtain st' where st': "word_coord_add_word initial_store ''alpha'' 40 (- 74) 1 = Some st'"
      "global_wh_train st'
         = \<lparr>wh_table = (replicate 128 free_slot)[43 := \<lparr>wt_word = ''alpha'', wt_value = 0\<rparr>],
            wh_tablesize = 128, wh_occupancy = 1\<rparr>"
      "wi_count (wc_list st' ! 0) = 0"
    and tr: "train_retained default_globals initial_store = []"
      "train_retained default_globals
        (initial_store\<lparr>wc_list := map (\<lambda>wi. wi\<lparr>wi_count := 5\<rparr>) (wc_list initial_store)\<rparr>)
        = train_retained default_globals initial_store"
    by (auto simp: initial_store_def FLT_MAX_def default_globals_def zero_wordinfo_def
        insert_alpha wordhash_init_occupancy)
  have "wordhash_find (global_wh_train st') ''alpha'' = 0"
    unfolding st'(2)
    by (simp add: wordhash_find_def first_slot_def hash_alpha wordhash_find_loop_step)
  then have "word_coord_get_count st' ''alpha'' = Some 0"
    using st'(3) by (simp add: word_coord_get_count_def)
  then show ?thesis using st' tr by blast
qed

section \<open>Properties of the kernel density estimation\<close>

lemma kde_radius_from_least:
  assumes "x0 \<le> r" "kde_density_at_tick g s1 s2 rho r < 1 / 1000"
    and "\<forall>x. x0 \<le> x \<and> x < r \<longrightarrow> \<not> kde_density_at_tick g s1 s2 rho x < 1 / 1000"
  shows "kde_radius_from g s1 s2 rho x0 = Some r"
  using assms
proof (induction "nat (r - x0)" arbitrary: x0)
  case 0
  then have "x0 = r" by simp
  then show ?case using 0 by (subst kde_radius_from.simps) simp
next
  case (Suc n)
  then have lt: "x0 < r" by linarith
  then have "\<not> kde_density_at_tick g s1 s2 rho x0 < 1 / 1000" using Suc.prems by simp
  moreover have "kde_radius_from g s1 s2 rho (x0 + 1) = Some r"
    using Suc lt by (intro Suc.hyps(1)) auto
  ultimately show ?case by (subst kde_radius_from.simps) simp
qed

lemmas kde_radius_from_induct =
  kde_radius_from.raw_induct [where xa = "((((g, s1), s2), rho), x)" for g s1 s2 rho x,
    unfolded prod.case, rotated 1, consumes 1, case_names step]

lemma kde_radius_from_Some:
  assumes "kde_radius_from g s1 s2 rho x0 = Some r"
  shows "x0 \<le> r \<and> kde_density_at_tick g s1 s2 rho r < 1 / 1000
     \<and> (\<forall>x. x0 \<le> x \<and> x < r \<longrightarrow> \<not> kde_density_at_tick g s1 s2 rho x < 1 / 1000)"
  using assms
proof (induction g s1 s2 rho x0 r rule: kde_radius_from_induct)
  case (step f g s1 s2 rho x0 r)
  show ?case
  proof (cases "kde_density_at_tick g s1 s2 rho x0 < 1 / 1000")
    case True
    then show ?thesis using step(2) by auto
  next
    case False
    then have "f g s1 s2 rho (x0 + 1) = Some r" using step(2) by simp
    from step(1) [OF this] have *: "x0 + 1 \<le> r" "kde_density_at_tick g s1 s2 rho r < 1 / 1000"
      "\<forall>x. x0 + 1 \<le> x \<and> x < r \<longrightarrow> \<not> kde_density_at_tick g s1 s2 rho x < 1 / 1000" by auto
    have "\<forall>x. x0 \<le> x \<and> x < r \<longrightarrow> \<not> kde_density_at_tick g s1 s2 rho x < 1 / 1000"
    proof (intro allI impI)
      fix x assume "x0 \<le> x \<and> x < r"
      then consider "x = x0" | "x0 + 1 \<le> x \<and> x < r" by linarith
      then show "\<not> kde_density_at_tick g s1 s2 rho x < 1 / 1000"
        using False * by cases auto
    qed
    then show ?thesis using * by simp
  qed
qed

lemma TWOPI_pos: "0 < TWOPI"
  by (simp add: TWOPI_def)

lemma gaussian_exponent_axis:
  fixes t s :: real
  shows "(t - 0) * (t - 0) / (s * s) - 2 * 0 * (t - 0) * (0 - 0) / (s * s)
           + (0 - 0) * (0 - 0) / (s * s) = t\<^sup>2 / (s * s)"
  by (simp add: power2_eq_square)

lemma gaussian_axis:
  "bivariate_gaussian_pdf t 0 s s 0 0 0 = 1 / (TWOPI * s * s) * exp (- (t\<^sup>2 / (s * s) / 2))"
  unfolding bivariate_gaussian_pdf_def Let_def gaussian_exponent_axis by simp

lemma kde_density_axis:
  "kde_density_at_tick g s s 0 x
     = 1 / (TWOPI * s * s)
         * exp (- ((real_of_int x * (360 / real_of_int (g_longranularity g)))\<^sup>2 / (s * s) / 2))"
  unfolding kde_density_at_tick_def by (rule gaussian_axis)

lemma kde_density_below:
  assumes L: "0 < g_longranularity g" and s: "s \<noteq> 0"
  shows "\<exists>x\<ge>0. kde_density_at_tick g s s 0 x < 1 / 1000"
proof -
  define d where "d = 360 / real_of_int (g_longranularity g)"
  define c where "c = d\<^sup>2 / (s * s) / 2"
  define T where "T = TWOPI * s * s"
  define K where "K = 1000 / T"
  have dpos: "0 < d" using L by (simp add: d_def)
  have sspos: "0 < s * s" using s by (auto simp: zero_less_mult_iff)
  have cpos: "0 < c" unfolding c_def using dpos sspos by (intro divide_pos_pos) auto
  have "T = TWOPI * (s * s)" by (simp add: T_def)
  then have tpos: "0 < T" using sspos TWOPI_pos by (simp only: mult_pos_pos)
  have Kpos: "0 < K" unfolding K_def using tpos by (intro divide_pos_pos) auto
  obtain n :: nat where n: "K / c < real n" using reals_Archimedean2 by blast
  have "0 < K / c" using Kpos cpos by (rule divide_pos_pos)
  then have npos: "0 < real n" using n by linarith
  then have n1: "1 \<le> real n" by simp
  define u where "u = c * (real n)\<^sup>2"
  have "real n * 1 \<le> real n * real n" using n1 npos by (intro mult_left_mono) auto
  then have "real n \<le> (real n)\<^sup>2" by (simp add: power2_eq_square)
  then have "c * real n \<le> u" unfolding u_def using cpos by (intro mult_left_mono) auto
  moreover have "K < c * real n"
  proof -
    have "K / c * c < real n * c" using n cpos by (intro mult_strict_right_mono)
    then show ?thesis using cpos by (simp add: mult.commute)
  qed
  ultimately have Ku: "K < u" by linarith
  have upos: "0 < u" using Ku Kpos by linarith
  have "exp (- u) = 1 / exp u" by (simp add: exp_minus divide_inverse)
  also have "\<dots> \<le> 1 / (1 + u)"
    using exp_ge_add_one_self [of u] upos by (intro divide_left_mono) auto
  also have "\<dots> < 1 / K" using Ku Kpos by (intro divide_strict_left_mono) auto
  finally have e: "exp (- u) < 1 / K" .
  have ueq: "(real_of_int (int n) * d)\<^sup>2 / (s * s) / 2 = u"
    by (simp add: u_def c_def power_mult_distrib)
  have "kde_density_at_tick g s s 0 (int n) = 1 / T * exp (- u)"
    unfolding kde_density_axis d_def [symmetric] ueq T_def ..
  also have "\<dots> < 1 / T * (1 / K)"
    using e tpos by (intro mult_strict_left_mono) auto
  also have "\<dots> = 1 / 1000" using tpos by (simp add: K_def)
  finally show ?thesis by (intro exI [of _ "int n"]) simp
qed

lemma least_int_from:
  fixes P :: "int \<Rightarrow> bool"
  assumes "\<exists>x\<ge>0. P x"
  shows "\<exists>r\<ge>0. P r \<and> (\<forall>x. 0 \<le> x \<and> x < r \<longrightarrow> \<not> P x)"
proof -
  from assms obtain x where x: "0 \<le> x" "P x" by blast
  define Q where "Q n = P (int n)" for n
  define m where "m = (LEAST n. Q n)"
  have "Q (nat x)" using x by (simp add: Q_def)
  then have l1: "Q m" unfolding m_def by (rule LeastI)
  have l2: "\<not> Q k" if "k < m" for k using that unfolding m_def by (rule not_less_Least)
  have "\<not> P y" if "0 \<le> y" "y < int m" for y
  proof -
    have "nat y < m" using that by simp
    from l2 [OF this] show ?thesis using that(1) by (simp add: Q_def)
  qed
  moreover have "P (int m)" using l1 by (simp add: Q_def)
  ultimately show ?thesis by (intro exI [of _ "int m"]) simp
qed

lemma kde_maxradius_least:
  assumes "0 < g_longranularity g" "sigma \<noteq> 0"
  shows "\<exists>r\<ge>0. kde_maxradius g sigma sigma 0 = Some r
           \<and> kde_density_at_tick g sigma sigma 0 r < 1 / 1000
           \<and> (\<forall>x. 0 \<le> x \<and> x < r \<longrightarrow> \<not> kde_density_at_tick g sigma sigma 0 x < 1 / 1000)"
proof -
  from least_int_from [OF kde_density_below [OF assms]]
  obtain r where r: "0 \<le> r" "kde_density_at_tick g sigma sigma 0 r < 1 / 1000"
    "\<forall>x. 0 \<le> x \<and> x < r \<longrightarrow> \<not> kde_density_at_tick g sigma sigma 0 x < 1 / 1000" by blast
  have "kde_maxradius g sigma sigma 0 = Some r"
    unfolding kde_maxradius_def using r by (intro kde_radius_from_least) auto
  then show ?thesis using r by blast
qed










lemma pointwise_ge_refl: "pointwise_ge m m"
  by (simp add: pointwise_ge_def)

lemma pointwise_ge_trans: "pointwise_ge a b \<Longrightarrow> pointwise_ge b c \<Longrightarrow> pointwise_ge a c"
  by (auto simp: pointwise_ge_def intro: order_trans)

lemma pointwise_ge_fold:
  assumes "\<And>x m. x \<in> set xs \<Longrightarrow> pointwise_ge m (f x m)"
  shows "pointwise_ge m (fold f xs m)"
  using assms
proof (induction xs arbitrary: m)
  case Nil
  show ?case by (simp add: pointwise_ge_refl)
next
  case (Cons x xs)
  have "pointwise_ge m (f x m)" using Cons.prems by simp
  moreover have "pointwise_ge (f x m) (fold f xs (f x m))" using Cons.prems by (intro Cons.IH) simp
  ultimately show ?case by (simp add: pointwise_ge_trans)
qed

lemma pdf_nonneg: "0 \<le> bivariate_gaussian_pdf x1 x2 s s 0 m1 m2"
proof -
  have "0 \<le> TWOPI * (s * s)"
    by (rule mult_nonneg_nonneg [OF less_imp_le [OF TWOPI_pos] zero_le_square])
  then have "0 \<le> TWOPI * s * s * sqrt (1 - 0 * 0)" by (simp add: mult.assoc)
  then have "0 \<le> 1 / (TWOPI * s * s * sqrt (1 - 0 * 0))" by (intro divide_nonneg_nonneg) auto
  then show ?thesis unfolding bivariate_gaussian_pdf_def Let_def
    by (intro mult_nonneg_nonneg) auto
qed

lemma update_add_ge:
  fixes d :: real
  assumes "0 \<le> d"
  shows "pointwise_ge m (m[k := m ! k + d])"
  unfolding pointwise_ge_def
proof (intro conjI allI impI)
  show "length (m[k := m ! k + d]) = length m" by simp
next
  fix i assume "i < length m"
  then show "m ! i \<le> m[k := m ! k + d] ! i"
    using assms by (cases "i = k") simp_all
qed

lemma kde_cell_ge: "pointwise_ge m (kde_cell g s s 0 p y x m)"
  unfolding kde_cell_def by (rule update_add_ge [OF pdf_nonneg])

lemma kde_point_ge: "pointwise_ge m (kde_point g r s s 0 p m)"
  unfolding kde_point_def Let_def
  by (intro pointwise_ge_fold kde_cell_ge)

lemma nokde_ge:
  assumes "\<forall>p\<in>set cl. 0 \<le> LATLONTOCELL g (cl_lat p) (cl_lon p)
              \<and> LATLONTOCELL g (cl_lat p) (cl_lon p) < int (length m)"
  shows "\<exists>m'. matrix_nokde_from_coords g m cl = Some m' \<and> pointwise_ge m m'"
  using assms
proof (induction cl arbitrary: m)
  case Nil
  then show ?case by (simp add: pointwise_ge_refl)
next
  case (Cons p cl)
  let ?idx = "LONTOX g (cl_lon p) + LATTOY g (cl_lat p) * g_longranularity g"
  have rng: "0 \<le> ?idx" "?idx < int (length m)"
    using Cons.prems by (simp_all add: LATLONTOCELL_def add.commute)
  let ?m = "m[nat ?idx := m ! nat ?idx + 1]"
  have step: "matrix_nokde_from_coords g m (p # cl) = matrix_nokde_from_coords g ?m cl"
    using rng by (simp add: Let_def)
  have g1: "pointwise_ge m ?m" by (rule update_add_ge) simp
  have "\<exists>m'. matrix_nokde_from_coords g ?m cl = Some m' \<and> pointwise_ge ?m m'"
    using Cons.prems by (intro Cons.IH) simp
  then show ?case using step g1 pointwise_ge_trans by metis
qed

lemma foldl_plus: "foldl (+) a xs = a + sum_list xs" for a :: real
  by (induction xs arbitrary: a) (simp_all add: add.assoc)

lemma sum_list_positive:
  fixes m :: "real list"
  assumes "m \<noteq> []" "\<forall>v\<in>set m. 0 < v"
  shows "0 < sum_list m"
proof -
  obtain a m' where m: "m = a # m'" using assms(1) by (cases m) auto
  have "0 < a" using assms(2) m by simp
  moreover have "0 \<le> sum_list m'" using assms(2) m by (intro sum_list_nonneg) (simp add: less_imp_le)
  ultimately show ?thesis using m by simp
qed

lemma sum_list_scaled:
  fixes m :: "real list"
  shows "sum_list (map (\<lambda>v. v / s) m) = sum_list m / s"
  by (induction m) (simp_all add: add_divide_distrib)

lemma matrix_normalize_sum:
  assumes "m \<noteq> []" "\<forall>v\<in>set m. 0 < v"
  shows "sum_list (matrix_normalize m) = 1 \<and> (\<forall>v\<in>set (matrix_normalize m). 0 < v)
         \<and> length (matrix_normalize m) = length m"
proof -
  let ?s = "sum_list m"
  have spos: "0 < ?s" using assms by (rule sum_list_positive)
  have n: "matrix_normalize m = map (\<lambda>v. v / ?s) m"
    by (simp add: matrix_normalize_def foldl_plus)
  have "sum_list (map (\<lambda>v. v / ?s) m) = ?s / ?s"
    by (rule sum_list_scaled)
  then have "sum_list (matrix_normalize m) = 1" using spos n by simp
  moreover have "\<forall>v\<in>set (matrix_normalize m). 0 < v" using assms spos n by auto
  ultimately show ?thesis using n by simp
qed


lemma valid_point_cell_range:
  assumes L: "0 < g_longranularity g" "even (g_longranularity g)"
    and H: "g_latgranularity g = g_longranularity g div 2"
    and vp: "valid_point p"
  shows "0 \<le> LATLONTOCELL g (cl_lat p) (cl_lon p)"
    and "LATLONTOCELL g (cl_lat p) (cl_lon p) < g_latgranularity g * g_longranularity g"
proof -
  note xy = valid_point_xy [OF L vp]
  have "0 \<le> LONTOX g (cl_lon p) + LATTOY g (cl_lat p) * g_longranularity g"
    and "LONTOX g (cl_lon p) + LATTOY g (cl_lat p) * g_longranularity g
           < g_latgranularity g * g_longranularity g"
    using cell_index_bounds [OF xy(1) xy(2) xy(3), of "g_latgranularity g"] xy(4) H by simp_all
  then show "0 \<le> LATLONTOCELL g (cl_lat p) (cl_lon p)"
    and "LATLONTOCELL g (cl_lat p) (cl_lon p) < g_latgranularity g * g_longranularity g"
    by (simp_all add: LATLONTOCELL_def add.commute)
qed

text \<open>
  C5. With a positive \<open>tweetprior\<close> (its value is always \<open>1.0\<close>), a positive even grid
  size, in-range points and, for the KDE, a nonzero \<open>sigma\<close>, the trainer's document
  prior is built, has one entry per cell, its entries sum to \<open>1\<close>, and every entry is
  strictly positive.
\<close>

theorem tweetsmatrix_sums_to_one_and_positive:
  assumes tp: "0 < g_tweetprior g"
    and L: "0 < g_longranularity g" "even (g_longranularity g)"
    and H: "g_latgranularity g = g_longranularity g div 2"
    and sg: "g_nokde g \<noteq> 0 \<or> g_sigma g \<noteq> 0"
    and pts: "\<forall>p\<in>set tweetcoords. valid_point p"
  shows "\<exists>P. train_tweetsmatrix g tweetcoords = Some P
           \<and> int (length P) = g_latgranularity g * g_longranularity g
           \<and> sum_list P = 1 \<and> (\<forall>v\<in>set P. 0 < v)"
proof -
  let ?N = "g_latgranularity g * g_longranularity g"
  let ?m0 = "matrix_init g (g_tweetprior g)"
  have Hpos: "0 < g_latgranularity g" using L H by (auto elim!: evenE)
  have Npos: "0 < ?N" using L Hpos by simp
  have len0: "int (length ?m0) = ?N" using Npos by (simp add: matrix_init_def)
  have "\<exists>m. (if g_nokde g \<noteq> 0 then matrix_nokde_from_coords g ?m0 tweetcoords
              else matrix_kde_from_coords g ?m0 tweetcoords (g_sigma g) (g_sigma g) 0) = Some m
            \<and> pointwise_ge ?m0 m"
  proof (cases "g_nokde g \<noteq> 0")
    case True
    have "\<forall>p\<in>set tweetcoords. 0 \<le> LATLONTOCELL g (cl_lat p) (cl_lon p)
              \<and> LATLONTOCELL g (cl_lat p) (cl_lon p) < int (length ?m0)"
      using valid_point_cell_range [OF L H] pts len0 by simp
    from nokde_ge [OF this] show ?thesis using True by simp
  next
    case False
    then have s: "g_sigma g \<noteq> 0" using sg by simp
    from kde_maxradius_least [OF L(1) s] obtain r where
      r: "kde_maxradius g (g_sigma g) (g_sigma g) 0 = Some r" by blast
    have "pointwise_ge ?m0 (fold (kde_point g r (g_sigma g) (g_sigma g) 0) tweetcoords ?m0)"
      by (intro pointwise_ge_fold kde_point_ge)
    then show ?thesis using False r by (simp add: matrix_kde_from_coords_def)
  qed
  then obtain m where m: "(if g_nokde g \<noteq> 0 then matrix_nokde_from_coords g ?m0 tweetcoords
              else matrix_kde_from_coords g ?m0 tweetcoords (g_sigma g) (g_sigma g) 0) = Some m"
    and ge: "pointwise_ge ?m0 m" by blast
  have lenm: "length m = length ?m0" using ge by (simp add: pointwise_ge_def)
  have ne: "m \<noteq> []" using lenm len0 Npos by auto
  have pos: "\<forall>v\<in>set m. 0 < v"
  proof
    fix v assume "v \<in> set m"
    then obtain i where i: "i < length m" "m ! i = v" by (auto simp: in_set_conv_nth)
    then have "?m0 ! i \<le> v" using ge lenm by (auto simp: pointwise_ge_def)
    moreover have "?m0 ! i = g_tweetprior g" using i lenm by (simp add: matrix_init_def)
    ultimately show "0 < v" using tp by linarith
  qed
  have t: "train_tweetsmatrix g tweetcoords = Some (matrix_normalize m)"
    using m by (simp add: train_tweetsmatrix_def)
  from matrix_normalize_sum [OF ne pos] show ?thesis
    using t lenm len0 by simp
qed

theorem tweetsmatrix_sums_to_one_and_positive_witness:
  "\<exists>P. train_tweetsmatrix grid2_nokde [\<lparr>cl_lat = 40, cl_lon = - 74\<rparr>] = Some P
      \<and> P = [2 / 3, 1 / 3] \<and> sum_list P = 1 \<and> (\<forall>v\<in>set P. 0 < v)"
proof -
  have e: "train_tweetsmatrix grid2_nokde [\<lparr>cl_lat = 40, cl_lon = - 74\<rparr>] = Some [2 / 3, 1 / 3]"
    by (simp add: train_tweetsmatrix_def grid2_nokde_def grid2_simps matrix_init_def
        LONTOX_def LATTOY_def double_to_int_def matrix_normalize_def Let_def numeral_2_eq_2
        grid2_def set_granularity_def default_globals_def c_div_def)
  from tweetsmatrix_sums_to_one_and_positive [of grid2_nokde "[\<lparr>cl_lat = 40, cl_lon = - 74\<rparr>]"]
  show ?thesis unfolding e
    by (simp add: grid2_nokde_def grid2_simps valid_point_def grid2_def set_granularity_def
        default_globals_def)
qed

section \<open>Properties of the Naive Bayes classifier\<close>









lemma alpha_globals_simps:
  "g_longranularity alpha_globals = 2" "g_latgranularity alpha_globals = 1"
  "g_unk alpha_globals = 0" "g_complement_nb alpha_globals = 0"
  "g_wordprior alpha_globals = 1 / 100" "g_wordtypes alpha_globals = 9"
  "g_nokde alpha_globals = 0"
  by (simp_all add: alpha_globals_def grid2_def set_granularity_def default_globals_def c_div_def)

lemma unk_globals_simps:
  "g_longranularity unk_globals = 2" "g_latgranularity unk_globals = 1"
  "g_unk unk_globals = 1" "g_complement_nb unk_globals = 0"
  "g_wordprior unk_globals = 1 / 100" "g_wordtypes unk_globals = 9"
  "g_nokde unk_globals = 0"
  by (simp_all add: unk_globals_def alpha_globals_simps)

lemma alpha_store_find:
  "wordhash_find (global_wh_train alpha_store) ''alpha'' = 0"
  "wordhash_find (global_wh_train alpha_store) ''zzz'' = - 1"
  by (simp_all add: alpha_store_def wordhash_find_def first_slot_def hash_alpha hash_zzz
      wordhash_find_loop_step free_slot_def)

lemma alpha_store_entry:
  "wc_list alpha_store ! 0 =
     \<lparr>wi_coordinate_list = [],
      wi_sparsematrix = Some [\<lparr>sm_x = 0, sm_y = 0, sm_value = 8\<rparr>, sm_reader_sentinel],
      wi_word = Some ''alpha'', wi_weight = 1, wi_count = 0\<rparr>"
  by (simp add: alpha_store_def)

lemma cell_range2: "g_longranularity g = 2 \<Longrightarrow> g_latgranularity g = 1 \<Longrightarrow> cell_range g = [0, 1]"
  by (simp add: cell_range_def upt_rec)

lemma alpha_matrix:
  "g_longranularity g = 2 \<Longrightarrow> g_latgranularity g = 1 \<Longrightarrow>
     word_get_matrix g alpha_store 0 = Some [8, 0]"
  by (simp add: word_get_matrix_def alpha_store_entry sparsematrix_to_matrix_def
      sm_reader_sentinel_def short_of_int_def numeral_2_eq_2)


lemma ln_combine:
  fixes a b c :: real
  assumes "0 < a" "0 < b" "0 < c"
  shows "ln a + (ln b - ln c) = ln (a * b / c)"
  using assms by (simp add: ln_mult ln_div)

lemma ln_lower_bound:
  fixes x :: real
  assumes "0 < x"
  shows "- (1 / x) < ln x"
proof -
  have "ln (1 / x) \<le> 1 / x - 1" using assms by (intro ln_le_minus_one) simp
  moreover have "ln (1 / x) = - ln x" using assms by (simp add: ln_div)
  ultimately show ?thesis by linarith
qed

lemma DBL_MAX_large: "1000 < DBL_MAX"
  by (simp add: DBL_MAX_def)









section \<open>Unknown features in the two classifiers\<close>










section \<open>The uninitialised feature weight\<close>

lemma ln_square:
  fixes x :: real
  assumes "0 < x"
  shows "2 * ln x = ln (x * x)"
  using assms by (simp add: ln_mult)

lemma unk_scores_skipped:
  "\<not> ln (1 / 4) + (ln (801 / 100) - ln (811 / 100))
       < ln (3 / 4) + (ln (1 / 100) - ln (11 / 100 :: real))"
proof -
  have "ln (1 / 4) + (ln (801 / 100) - ln (811 / 100)) = ln (1 / 4 * (801 / 100) / (811 / 100) :: real)"
    by (rule ln_combine) simp_all
  moreover have "ln (3 / 4) + (ln (1 / 100) - ln (11 / 100)) = ln (3 / 4 * (1 / 100) / (11 / 100) :: real)"
    by (rule ln_combine) simp_all
  ultimately show ?thesis by simp
qed

lemma unk_scores_scored:
  "ln (1 / 4) + (ln (801 / 100) - 2 * ln (811 / 100))
     < ln (1 / 100) + (ln (3 / 4) - 2 * ln (11 / 100 :: real))"
proof -
  have "ln (1 / 4) + (ln (801 / 100) - 2 * ln (811 / 100))
          = ln (1 / 4 * (801 / 100) / (811 / 100 * (811 / 100)) :: real)"
    unfolding ln_square [of "811 / 100", simplified] by (subst ln_combine) simp_all
  moreover have "ln (1 / 100) + (ln (3 / 4) - 2 * ln (11 / 100))
          = ln (1 / 100 * (3 / 4) / (11 / 100 * (11 / 100)) :: real)"
    unfolding ln_square [of "11 / 100", simplified] by (subst ln_combine) simp_all
  ultimately show ?thesis by simp
qed

lemma unk_score_finite:
  "- DBL_MAX < 2 * ln (1 / 100) + (ln (3 / 4) - 2 * ln (11 / 100 :: real))"
proof -
  have "2 * ln (1 / 100) + (ln (3 / 4) - 2 * ln (11 / 100))
          = ln (1 / 100 * (1 / 100) * (3 / 4) / (11 / 100 * (11 / 100)) :: real)"
    unfolding ln_square [of "11 / 100", simplified] ln_square [of "1 / 100", simplified]
    by (subst ln_combine) simp_all
  then show ?thesis
    using ln_lower_bound [of "1 / 100 * (1 / 100) * (3 / 4) / (11 / 100 * (11 / 100))"]
      DBL_MAX_large by simp
qed

text \<open>
  C10. With unk mode on, the query \<open>zzz, alpha\<close> has an unknown feature before its first
  known feature. The weight test for \<open>zzz\<close> reads \<open>feature_weight\<close>, which no statement has
  assigned yet. The two calls below have the same arguments and the same model; they
  differ only in the value that the unassigned variable happens to hold, and they
  return different cells: with \<open>0\<close> the feature is skipped, with \<open>1\<close> it is scored.
\<close>

theorem unk_weight_read_before_assignment:
  "g_unk unk_globals = 1
   \<and> wordhash_find (global_wh_train alpha_store) ''zzz'' = - 1
   \<and> wordhash_find (global_wh_train alpha_store) ''alpha'' \<noteq> - 1
   \<and> map_option fst (tweet_classify_naivebayes unk_globals alpha_store 0 0 [''zzz'', ''alpha'']
                        [1 / 4, 3 / 4] [8, 0] True) = Some 0
   \<and> map_option fst (tweet_classify_naivebayes unk_globals alpha_store 1 0 [''zzz'', ''alpha'']
                        [1 / 4, 3 / 4] [8, 0] True) = Some 1"
proof -
  have "map_option fst (tweet_classify_naivebayes unk_globals alpha_store 0 0 [''zzz'', ''alpha'']
                        [1 / 4, 3 / 4] [8, 0] True) = Some 0"
    using unk_scores_skipped
    by (simp add: tweet_classify_naivebayes_def prior_minimum_def cell_range2 unk_globals_simps
     matrix_copy_def nb_word_def alpha_store_find alpha_matrix word_coord_get_weight_def
     word_coord_get_count_def alpha_store_entry nb_score_def cell_skipped_def nb_cell_def
     nb_argmax_def Let_def matrix_init_def numeral_2_eq_2)
  moreover have "map_option fst (tweet_classify_naivebayes unk_globals alpha_store 1 0 [''zzz'', ''alpha'']
                        [1 / 4, 3 / 4] [8, 0] True) = Some 1"
    using unk_scores_scored unk_score_finite
    by (simp add: tweet_classify_naivebayes_def prior_minimum_def cell_range2 unk_globals_simps
     matrix_copy_def nb_word_def alpha_store_find alpha_matrix word_coord_get_weight_def
     word_coord_get_count_def alpha_store_entry nb_score_def cell_skipped_def nb_cell_def
     nb_argmax_def Let_def matrix_init_def numeral_2_eq_2)
  ultimately show ?thesis by (simp add: unk_globals_simps alpha_store_find)
qed

end
